theory Spec2Isabelle
  imports Main
begin

section \<open>Strings, arrays and buffers\<close>

text \<open>
  A JavaScript string is represented by the sequence of its UTF-8 bytes, so that
  \<^verbatim>\<open>Buffer.from(message)\<close> is the identity and string concatenation is list append.
  The line terminators of the regular expressions are line feed and carriage return;
  the Unicode separators U+2028 and U+2029 and white space outside ASCII are ordinary
  bytes here. A \<^verbatim>\<open>Buffer\<close> is a list of bytes as well.
\<close>

definition nl :: string where
  "nl = [CHR 0x0D, CHR 0x0A]"

definition is_line_terminator :: "char \<Rightarrow> bool" where
  "is_line_terminator c = (c = CHR 0x0A \<or> c = CHR 0x0D)"

text \<open>\<^verbatim>\<open>Array.prototype.join\<close> on an array of strings.\<close>

fun join :: "string \<Rightarrow> string list \<Rightarrow> string" where
  "join sep [] = []"
| "join sep [x] = x"
| "join sep (x # y # ys) = x @ sep @ join sep (y # ys)"

text \<open>
  \<^verbatim>\<open>.filter(Boolean)\<close> on an array whose entries are strings or \<^verbatim>\<open>null\<close>: it drops
  \<^verbatim>\<open>null\<close> and the empty string, the two falsy values such an array can hold.
\<close>

fun filter_Boolean :: "string option list \<Rightarrow> string list" where
  "filter_Boolean [] = []"
| "filter_Boolean (None # xs) = filter_Boolean xs"
| "filter_Boolean (Some s # xs) = (if s = [] then filter_Boolean xs else s # filter_Boolean xs)"

text \<open>Truthiness of an optional string (\<^verbatim>\<open>!!html\<close>, \<^verbatim>\<open>from ? .. : null\<close>).\<close>

fun truthy :: "string option \<Rightarrow> bool" where
  "truthy None = False"
| "truthy (Some s) = (s \<noteq> [])"

text \<open>\<^verbatim>\<open>xs && xs.length > 0\<close> for an optional array.\<close>

fun hasItems :: "'a list option \<Rightarrow> bool" where
  "hasItems None = False"
| "hasItems (Some xs) = (xs \<noteq> [])"

fun items :: "'a list option \<Rightarrow> 'a list" where
  "items None = []"
| "items (Some xs) = xs"

fun text_of :: "string option \<Rightarrow> string" where
  "text_of None = ''undefined''"
| "text_of (Some s) = s"

text \<open>Decimal rendering of a non-negative integer, as a template literal prints it.\<close>

definition digit_char :: "nat \<Rightarrow> char" where
  "digit_char d = ''0123456789'' ! d"

fun show_nat :: "nat \<Rightarrow> string" where
  "show_nat n = (if n < 10 then [digit_char n] else show_nat (n div 10) @ [digit_char (n mod 10)])"

declare show_nat.simps [simp del]

text \<open>\<^verbatim>\<open>s.replace(/c/g, rep)\<close> for a single literal character \<open>c\<close>.\<close>

fun replace_char :: "char \<Rightarrow> string \<Rightarrow> string \<Rightarrow> string" where
  "replace_char c rep [] = []"
| "replace_char c rep (x # xs) = (if x = c then rep @ replace_char c rep xs else x # replace_char c rep xs)"


section \<open>Base64\<close>

text \<open>
  \<^verbatim>\<open>buf.toString("base64")\<close>: the alphabet of RFC 4648, three bytes to four characters,
  the last group padded with \<^verbatim>\<open>=\<close>.
\<close>

definition b64_char :: "nat \<Rightarrow> char" where
  "b64_char n =
     (if n < 26 then char_of (n + 65)
      else if n < 52 then char_of (n + 71)
      else if n < 62 then char_of (n - 4)
      else if n = 62 then CHR ''+''
      else CHR ''/'')"

fun base64_encode :: "char list \<Rightarrow> string" where
  "base64_encode [] = []"
| "base64_encode [a] =
     (let x = (of_char a :: nat) in
      [b64_char (x div 4), b64_char ((x mod 4) * 16), CHR ''='', CHR ''=''])"
| "base64_encode [a, b] =
     (let x = (of_char a :: nat); y = (of_char b :: nat) in
      [b64_char (x div 4), b64_char ((x mod 4) * 16 + y div 16),
       b64_char ((y mod 16) * 4), CHR ''=''])"
| "base64_encode (a # b # c # rest) =
     (let x = (of_char a :: nat); y = (of_char b :: nat); z = (of_char c :: nat) in
      [b64_char (x div 4), b64_char ((x mod 4) * 16 + y div 16),
       b64_char ((y mod 16) * 4 + z div 64), b64_char (z mod 64)])
     @ base64_encode rest"

text \<open>
  \<^verbatim>\<open>s.replace(/=+$/, "")\<close>: the leftmost position from which only \<^verbatim>\<open>=\<close> follows up to
  the end of the string starts the match, which is removed.
\<close>

fun strip_trailing_eq :: "string \<Rightarrow> string" where
  "strip_trailing_eq [] = []"
| "strip_trailing_eq (c # cs) =
     (if list_all (\<lambda>x. x = CHR ''='') (c # cs) then [] else c # strip_trailing_eq cs)"

definition to_base64url :: "char list \<Rightarrow> string" where
  "to_base64url bytes =
     strip_trailing_eq
       (replace_char (CHR ''/'') ''_''
         (replace_char (CHR ''+'') ''-'' (base64_encode bytes)))"

text \<open>
  The reader's side, from the specification: the substitutions reversed, then base64
  decoding of the unpadded text (four characters to three bytes; a last group of two or
  three characters gives one or two bytes).
\<close>

definition b64_val :: "char \<Rightarrow> nat" where
  "b64_val c =
     (let n = (of_char c :: nat) in
      if 65 \<le> n \<and> n \<le> 90 then n - 65
      else if 97 \<le> n \<and> n \<le> 122 then n - 71
      else if 48 \<le> n \<and> n \<le> 57 then n + 4
      else if n = 43 then 62
      else 63)"

fun base64_decode :: "string \<Rightarrow> char list" where
  "base64_decode (a # b # c # d # rest) =
     (let p = b64_val a; q = b64_val b; r = b64_val c; s = b64_val d in
      [char_of (p * 4 + q div 16), char_of ((q mod 16) * 16 + r div 4),
       char_of ((r mod 4) * 64 + s)])
     @ base64_decode rest"
| "base64_decode [a, b, c] =
     (let p = b64_val a; q = b64_val b; r = b64_val c in
      [char_of (p * 4 + q div 16), char_of ((q mod 16) * 16 + r div 4)])"
| "base64_decode [a, b] =
     (let p = b64_val a; q = b64_val b in [char_of (p * 4 + q div 16)])"
| "base64_decode _ = []"

definition undo_url_char :: "char \<Rightarrow> char" where
  "undo_url_char c = (if c = CHR ''-'' then CHR ''+'' else if c = CHR ''_'' then CHR ''/'' else c)"

definition from_base64url :: "string \<Rightarrow> char list" where
  "from_base64url s = base64_decode (map undo_url_char s)"


section \<open>The MIME envelope builder\<close>

record Attachment =
  filename :: string
  content :: "char list"
  mimeType :: string
  isInline :: "bool option"
  contentId :: "string option"

text \<open>
  \<^verbatim>\<open>s.match(/.{1,76}/g)\<close>: the successive matches, each a run of one to 76 characters
  that are not line terminators; the empty list stands for \<^verbatim>\<open>null\<close>.
\<close>

function match_1_76 :: "string \<Rightarrow> string list" where
  "match_1_76 [] = []"
| "match_1_76 (c # cs) =
     (if is_line_terminator c then match_1_76 cs
      else take 76 (takeWhile (\<lambda>x. \<not> is_line_terminator x) (c # cs))
           # match_1_76 (drop (length (take 76 (takeWhile (\<lambda>x. \<not> is_line_terminator x) (c # cs)))) (c # cs)))"
  by pat_completeness auto
termination
  by (relation "measure length") auto

text \<open>\<^verbatim>\<open>content.toString("base64").match(/.{1,76}/g)?.join(nl) || ""\<close>\<close>

definition base64Content :: "char list \<Rightarrow> string" where
  "base64Content bytes = join nl (match_1_76 (base64_encode bytes))"

definition mixedBoundary :: "nat \<Rightarrow> string" where
  "mixedBoundary ts = ''____mixed_'' @ show_nat ts @ ''____''"

definition altBoundary :: "nat \<Rightarrow> string" where
  "altBoundary ts = ''____alt_'' @ show_nat ts @ ''____''"

definition relatedBoundary :: "nat \<Rightarrow> string" where
  "relatedBoundary ts = ''____related_'' @ show_nat ts @ ''____''"

text \<open>The header block; \<open>ct\<close> is the \<^verbatim>\<open>Content-Type\<close> line of the branch.\<close>

definition headers :: "string \<Rightarrow> string option \<Rightarrow> string \<Rightarrow> string \<Rightarrow> string" where
  "headers to from subject ct =
     join nl (filter_Boolean
       [Some ''MIME-Version: 1.0'',
        Some (''To: '' @ to),
        (if truthy from then Some (''From: '' @ text_of from) else None),
        Some (''Subject: '' @ subject),
        Some ct])"

definition inlinePart :: "string \<Rightarrow> Attachment \<Rightarrow> string" where
  \<open>inlinePart boundary img =
     join nl
       [''--'' @ boundary,
        ''Content-Type: '' @ mimeType img @ ''; name="'' @ filename img @ ''"'',
        ''Content-Transfer-Encoding: base64'',
        ''Content-Disposition: inline; filename="'' @ filename img @ ''"'',
        ''Content-ID: <'' @ text_of (contentId img) @ ''>'',
        [],
        base64Content (content img)]\<close>

definition attachmentPart :: "string \<Rightarrow> Attachment \<Rightarrow> string" where
  \<open>attachmentPart boundary att =
     join nl
       [''--'' @ boundary,
        ''Content-Type: '' @ mimeType att @ ''; name="'' @ filename att @ ''"'',
        ''Content-Disposition: attachment; filename="'' @ filename att @ ''"'',
        ''Content-Transfer-Encoding: base64'',
        [],
        base64Content (content att)]\<close>

definition textPart :: "string \<Rightarrow> string \<Rightarrow> string" where
  \<open>textPart boundary body =
     join nl [''--'' @ boundary, ''Content-Type: text/plain; charset="UTF-8"'', [], body]\<close>

definition htmlPart :: "string \<Rightarrow> string \<Rightarrow> string" where
  \<open>htmlPart boundary html =
     join nl [''--'' @ boundary, ''Content-Type: text/html; charset="UTF-8"'', [], html]\<close>

text \<open>
  The variable \<^verbatim>\<open>message\<close> of \<^verbatim>\<open>createRawMessage\<close>; \<open>ts\<close> is the value of
  \<^verbatim>\<open>Date.now()\<close>. The six branches are in the order of the source.
\<close>

definition buildMessage ::
  "nat \<Rightarrow> string \<Rightarrow> string \<Rightarrow> string \<Rightarrow> string option \<Rightarrow> string option
     \<Rightarrow> Attachment list option \<Rightarrow> Attachment list option \<Rightarrow> string" where
  \<open>buildMessage ts to subject body from html attachments inlineImages =
     (let hasAttachments = hasItems attachments;
          hasInlineImages = hasItems inlineImages;
          hasHtml = truthy html
      in
      if hasAttachments \<and> hasHtml \<and> hasInlineImages then
        headers to from subject
          (''Content-Type: multipart/mixed; boundary="'' @ mixedBoundary ts @ ''"'')
        @ nl @ nl
        @ join nl [''--'' @ mixedBoundary ts,
                   ''Content-Type: multipart/related; boundary="'' @ relatedBoundary ts @ ''"'']
        @ nl @ nl
        @ htmlPart (relatedBoundary ts) (text_of html) @ nl
        @ join nl (map (inlinePart (relatedBoundary ts)) (items inlineImages)) @ nl
        @ ''--'' @ relatedBoundary ts @ ''--'' @ nl
        @ join nl (map (attachmentPart (mixedBoundary ts)) (items attachments)) @ nl
        @ ''--'' @ mixedBoundary ts @ ''--''
      else if hasAttachments \<and> hasHtml then
        headers to from subject
          (''Content-Type: multipart/mixed; boundary="'' @ mixedBoundary ts @ ''"'')
        @ nl @ nl
        @ join nl [''--'' @ mixedBoundary ts,
                   ''Content-Type: multipart/alternative; boundary="'' @ altBoundary ts @ ''"'']
        @ nl @ nl
        @ textPart (altBoundary ts) body @ nl
        @ htmlPart (altBoundary ts) (text_of html) @ nl
        @ ''--'' @ altBoundary ts @ ''--'' @ nl
        @ join nl (map (attachmentPart (mixedBoundary ts)) (items attachments)) @ nl
        @ ''--'' @ mixedBoundary ts @ ''--''
      else if hasAttachments then
        headers to from subject
          (''Content-Type: multipart/mixed; boundary="'' @ mixedBoundary ts @ ''"'')
        @ nl @ nl
        @ textPart (mixedBoundary ts) body @ nl
        @ join nl (map (attachmentPart (mixedBoundary ts)) (items attachments)) @ nl
        @ ''--'' @ mixedBoundary ts @ ''--''
      else if hasHtml \<and> hasInlineImages then
        headers to from subject
          (''Content-Type: multipart/related; boundary="'' @ relatedBoundary ts @ ''"'')
        @ nl @ nl
        @ htmlPart (relatedBoundary ts) (text_of html) @ nl
        @ join nl (map (inlinePart (relatedBoundary ts)) (items inlineImages)) @ nl
        @ ''--'' @ relatedBoundary ts @ ''--''
      else if hasHtml then
        headers to from subject
          (''Content-Type: multipart/alternative; boundary="'' @ altBoundary ts @ ''"'')
        @ nl @ nl
        @ textPart (altBoundary ts) body @ nl
        @ htmlPart (altBoundary ts) (text_of html) @ nl
        @ ''--'' @ altBoundary ts @ ''--''
      else
        join nl (filter_Boolean
          [Some ''MIME-Version: 1.0'',
           Some (''To: '' @ to),
           (if truthy from then Some (''From: '' @ text_of from) else None),
           Some (''Subject: '' @ subject),
           Some ''Content-Type: text/plain; charset="UTF-8"'',
           Some [],
           Some body]))\<close>

definition createRawMessage ::
  "nat \<Rightarrow> string \<Rightarrow> string \<Rightarrow> string \<Rightarrow> string option \<Rightarrow> string option
     \<Rightarrow> Attachment list option \<Rightarrow> Attachment list option \<Rightarrow> string" where
  "createRawMessage ts to subject body from html attachments inlineImages =
     to_base64url (buildMessage ts to subject body from html attachments inlineImages)"


subsection \<open>Reading a message\<close>

text \<open>
  The lines of a message are what stands between its CR LF pairs; a boundary delimiter
  occurs where a line is equal to it.
\<close>

fun split_crlf :: "string \<Rightarrow> string list" where
  "split_crlf [] = [[]]"
| "split_crlf [c] = [[c]]"
| "split_crlf (c # d # r) =
     (if c = CHR 0x0D \<and> d = CHR 0x0A then [] # split_crlf r
      else (case split_crlf (d # r) of [] \<Rightarrow> [[c]] | l # ls \<Rightarrow> (c # l) # ls))"

definition count_lines :: "string \<Rightarrow> string \<Rightarrow> nat" where
  "count_lines d s = length (filter (\<lambda>l. l = d) (split_crlf s))"

text \<open>
  The four delimiter lines of the message with attachments and an HTML body, and what it
  means for a text of the caller to hold none of them as a line.
\<close>

definition delimiters :: "nat \<Rightarrow> string list" where
  "delimiters ts =
     [''--'' @ mixedBoundary ts, ''--'' @ mixedBoundary ts @ ''--'',
      ''--'' @ altBoundary ts, ''--'' @ altBoundary ts @ ''--'']"

definition delimiter_free :: "nat \<Rightarrow> string \<Rightarrow> bool" where
  "delimiter_free ts u = list_all (\<lambda>d. count_lines d u = 0) (delimiters ts)"

text \<open>The substitution of \<^verbatim>\<open>createRawMessage\<close> on one character.\<close>

definition url_char :: "char \<Rightarrow> char" where
  "url_char c = (if c = CHR ''+'' then CHR ''-'' else if c = CHR ''/'' then CHR ''_'' else c)"


section \<open>Loading attachments and sending\<close>
















section \<open>Regular expressions and \<^verbatim>\<open>String.prototype.replace\<close>\<close>

text \<open>
  A regular expression is embedded as a matcher: given the character before the current
  position (\<open>None\<close> at the start of the input) and the input from the current position
  on, it returns the matched text and the capture groups, or \<open>None\<close>. None of the
  expressions below matches the empty string.
\<close>

type_synonym regex = "char option \<Rightarrow> string \<Rightarrow> (string \<times> string list) option"

text \<open>\<^verbatim>\<open>^\<close> and \<^verbatim>\<open>$\<close> under the \<^verbatim>\<open>m\<close> flag.\<close>

fun at_line_start :: "char option \<Rightarrow> bool" where
  "at_line_start None = True"
| "at_line_start (Some c) = is_line_terminator c"

fun at_line_end :: "string \<Rightarrow> bool" where
  "at_line_end [] = True"
| "at_line_end (c # cs) = is_line_terminator c"

text \<open>A greedy \<^verbatim>\<open>.*\<close>: the rest of the current line.\<close>

definition line_rest :: "string \<Rightarrow> string" where
  "line_rest s = takeWhile (\<lambda>c. \<not> is_line_terminator c) s"

fun strip_prefix :: "string \<Rightarrow> string \<Rightarrow> string option" where
  "strip_prefix [] s = Some s"
| "strip_prefix (p # ps) [] = None"
| "strip_prefix (p # ps) (c # cs) = (if p = c then strip_prefix ps cs else None)"

definition starts_with :: "string \<Rightarrow> string \<Rightarrow> bool" where
  "starts_with p s = (strip_prefix p s \<noteq> None)"

definition group :: "nat \<Rightarrow> string list \<Rightarrow> string" where
  "group i gs = (if i < length gs then gs ! i else [])"

text \<open>
  \<^verbatim>\<open>s.replace(re, f)\<close> for a global expression: the matches are found from left to
  right, each search starting where the previous match ended; unmatched characters are
  copied.
\<close>

function replace_all :: "regex \<Rightarrow> (string \<Rightarrow> string list \<Rightarrow> string) \<Rightarrow> char option \<Rightarrow> string \<Rightarrow> string" where
  "replace_all re f prev [] = []"
| "replace_all re f prev (c # cs) =
     (case re prev (c # cs) of
        None \<Rightarrow> c # replace_all re f (Some c) cs
      | Some (mt, gs) \<Rightarrow>
          f mt gs @ replace_all re f (Some (last (c # mt))) (drop (length mt - 1) cs))"
  by pat_completeness auto
termination
  by (relation "measure (\<lambda>(re, f, prev, s). length s)") auto

text \<open>\<^verbatim>\<open>s.match(re)\<close> for an expression without the \<^verbatim>\<open>g\<close> flag: the leftmost match.\<close>

fun first_match :: "regex \<Rightarrow> char option \<Rightarrow> string \<Rightarrow> (string \<times> string list) option" where
  "first_match re prev [] = None"
| "first_match re prev (c # cs) =
     (case re prev (c # cs) of
        None \<Rightarrow> first_match re (Some c) cs
      | Some r \<Rightarrow> Some r)"

text \<open>White space (\<^verbatim>\<open>\s\<close>, \<^verbatim>\<open>trim()\<close>), digits (\<^verbatim>\<open>\d\<close>) and word characters (\<^verbatim>\<open>\w\<close>).\<close>

definition is_space :: "char \<Rightarrow> bool" where
  "is_space c = (c = CHR 0x20 \<or> c = CHR 0x09 \<or> c = CHR 0x0A \<or> c = CHR 0x0B \<or> c = CHR 0x0C \<or> c = CHR 0x0D)"

definition is_digit :: "char \<Rightarrow> bool" where
  "is_digit c = (let n = (of_char c :: nat) in 48 \<le> n \<and> n \<le> 57)"

definition is_word_char :: "char \<Rightarrow> bool" where
  "is_word_char c =
     (let n = (of_char c :: nat) in
      (48 \<le> n \<and> n \<le> 57) \<or> (65 \<le> n \<and> n \<le> 90) \<or> n = 95 \<or> (97 \<le> n \<and> n \<le> 122))"

definition trim :: "string \<Rightarrow> string" where
  "trim s = rev (dropWhile is_space (rev (dropWhile is_space s)))"

text \<open>\<^verbatim>\<open>s.split(c)\<close> for a separator of one character.\<close>

fun split_on :: "char \<Rightarrow> string \<Rightarrow> string list" where
  "split_on sep [] = [[]]"
| "split_on sep (c # cs) =
     (if c = sep then [] # split_on sep cs
      else (case split_on sep cs of [] \<Rightarrow> [[c]] | l # ls \<Rightarrow> (c # l) # ls))"

text \<open>\<^verbatim>\<open>/^#{k} (.+)$/m\<close>, the marks and the space being \<open>marks\<close>.\<close>

definition re_heading :: "string \<Rightarrow> regex" where
  "re_heading marks prev s =
     (if at_line_start prev then
        (case strip_prefix marks s of
           None \<Rightarrow> None
         | Some r \<Rightarrow> (if line_rest r = [] then None else Some (marks @ line_rest r, [line_rest r])))
      else None)"

text \<open>
  The lazy \<^verbatim>\<open>[\s\S]*?\<close> followed by the closing fence: the text up to the first occurrence
  of three backticks, and what follows them.
\<close>

fun split_at_fence :: "string \<Rightarrow> (string \<times> string) option" where
  "split_at_fence [] = None"
| "split_at_fence (c # cs) =
     (case strip_prefix ''```'' (c # cs) of
        Some rest \<Rightarrow> Some ([], rest)
      | None \<Rightarrow> (case split_at_fence cs of None \<Rightarrow> None | Some (b, a) \<Rightarrow> Some (c # b, a)))"

text \<open>\<^verbatim>\<open>/```(\w*)\n([\s\S]*?)```/\<close>\<close>

definition re_code_fence :: regex where
  "re_code_fence prev s =
     (case strip_prefix ''```'' s of
        None \<Rightarrow> None
      | Some r \<Rightarrow>
          (case dropWhile is_word_char r of
             [] \<Rightarrow> None
           | c # r2 \<Rightarrow>
               (if c = CHR 0x0A then
                  (case split_at_fence r2 of
                     None \<Rightarrow> None
                   | Some (code, rest) \<Rightarrow>
                       Some (''```'' @ takeWhile is_word_char r @ [CHR 0x0A] @ code @ ''```'',
                             [takeWhile is_word_char r, code]))
                else None)))"

text \<open>
  The expressions of the shape \<^verbatim>\<open>/(^P$\n?)+/m\<close>, where \<^verbatim>\<open>P\<close> stays within one line:
  \<open>ok\<close> says whether \<^verbatim>\<open>P\<close> matches a whole line. Each round matches a line from its
  start to its end and a line feed if one follows; the next round needs a line start,
  which only that line feed gives.
\<close>

function lines_run :: "(string \<Rightarrow> bool) \<Rightarrow> string \<Rightarrow> string" where
  "lines_run ok s =
     (if ok (line_rest s) then
        (case drop (length (line_rest s)) s of
           [] \<Rightarrow> line_rest s
         | c # rest \<Rightarrow>
             (if c = CHR 0x0A then line_rest s @ [CHR 0x0A] @ lines_run ok rest
              else line_rest s))
      else [])"
  by pat_completeness auto
termination
proof (relation "measure (\<lambda>(ok, s). length s)")
  show "wf (measure (\<lambda>(ok, s). length s))" by simp
next
  fix ok :: "string \<Rightarrow> bool" and s :: string and c :: char and rest :: string
  assume "drop (length (line_rest s)) s = c # rest"
  then have "length (c # rest) \<le> length s"
    by (metis length_drop diff_le_self)
  then show "((ok, rest), (ok, s)) \<in> measure (\<lambda>(ok, s). length s)" by simp
qed

declare lines_run.simps [simp del]

definition re_lines :: "(string \<Rightarrow> bool) \<Rightarrow> regex" where
  "re_lines ok prev s =
     (if at_line_start prev then
        (if lines_run ok s = [] then None else Some (lines_run ok s, []))
      else None)"

text \<open>\<^verbatim>\<open>\|.+\|\<close> on a whole line.\<close>

fun table_line :: "string \<Rightarrow> bool" where
  "table_line [] = False"
| "table_line (c # cs) = (c = CHR ''|'' \<and> 2 \<le> length cs \<and> last cs = CHR ''|'')"

text \<open>\<^verbatim>\<open>>.*\<close> on a whole line.\<close>

fun quote_line :: "string \<Rightarrow> bool" where
  "quote_line [] = False"
| "quote_line (c # cs) = (c = CHR ''>'')"

text \<open>\<^verbatim>\<open>- .+\<close> on a whole line.\<close>

definition bullet_line :: "string \<Rightarrow> bool" where
  "bullet_line l = (case strip_prefix ''- '' l of None \<Rightarrow> False | Some r \<Rightarrow> r \<noteq> [])"

text \<open>\<^verbatim>\<open>\d+\. .+\<close> on a whole line.\<close>

definition numbered_line :: "string \<Rightarrow> bool" where
  "numbered_line l =
     (takeWhile is_digit l \<noteq> [] \<and>
      (case strip_prefix ''. '' (dropWhile is_digit l) of None \<Rightarrow> False | Some r \<Rightarrow> r \<noteq> []))"

text \<open>
  A lazy \<^verbatim>\<open>.*?\<close> followed by the literal \<open>p\<close>: the shortest run of characters of one
  line after which \<open>p\<close> stands.
\<close>

fun dots_until :: "string \<Rightarrow> string \<Rightarrow> string option" where
  "dots_until p [] = (if p = [] then Some [] else None)"
| "dots_until p (c # cs) =
     (if starts_with p (c # cs) then Some []
      else if is_line_terminator c then None
      else (case dots_until p cs of None \<Rightarrow> None | Some x \<Rightarrow> Some (c # x)))"

text \<open>\<^verbatim>\<open>/\*\*(.+?)\*\*/\<close>\<close>

definition re_strong :: regex where
  "re_strong prev s =
     (case strip_prefix ''**'' s of
        None \<Rightarrow> None
      | Some [] \<Rightarrow> None
      | Some (c # cs) \<Rightarrow>
          (if is_line_terminator c then None
           else (case dots_until ''**'' cs of
                   None \<Rightarrow> None
                 | Some x \<Rightarrow> Some (''**'' @ c # x @ ''**'', [c # x]))))"

text \<open>
  \<^verbatim>\<open>/d([^d]+?)d/\<close> and \<^verbatim>\<open>/d([^d]+)d/\<close> for a delimiter \<open>d\<close>: lazy or greedy, the group is
  the run up to the next \<open>d\<close>, which must not be empty.
\<close>

definition re_delimited :: "char \<Rightarrow> regex" where
  "re_delimited d prev s =
     (case s of
        [] \<Rightarrow> None
      | c # r \<Rightarrow>
          (if c = d \<and> takeWhile (\<lambda>x. x \<noteq> d) r \<noteq> [] \<and> dropWhile (\<lambda>x. x \<noteq> d) r \<noteq> []
           then Some (d # takeWhile (\<lambda>x. x \<noteq> d) r @ [d], [takeWhile (\<lambda>x. x \<noteq> d) r])
           else None))"

text \<open>\<^verbatim>\<open>/\[([^\]]+)\]\(([^)]+)\)/\<close>\<close>

definition re_link :: regex where
  "re_link prev s =
     (case s of
        [] \<Rightarrow> None
      | c # r \<Rightarrow>
          (if c = CHR ''['' \<and> takeWhile (\<lambda>x. x \<noteq> CHR '']'') r \<noteq> [] then
             (case strip_prefix '']('' (dropWhile (\<lambda>x. x \<noteq> CHR '']'') r) of
                None \<Rightarrow> None
              | Some r2 \<Rightarrow>
                  (if takeWhile (\<lambda>x. x \<noteq> CHR '')'') r2 \<noteq> [] \<and> dropWhile (\<lambda>x. x \<noteq> CHR '')'') r2 \<noteq> []
                   then Some (''['' @ takeWhile (\<lambda>x. x \<noteq> CHR '']'') r @ '']('' 
                                @ takeWhile (\<lambda>x. x \<noteq> CHR '')'') r2 @ '')'',
                              [takeWhile (\<lambda>x. x \<noteq> CHR '']'') r, takeWhile (\<lambda>x. x \<noteq> CHR '')'') r2])
                   else None))
           else None))"

text \<open>\<^verbatim>\<open>/^---$/m\<close>\<close>

definition re_rule :: regex where
  "re_rule prev s =
     (if at_line_start prev then
        (case strip_prefix ''---'' s of
           None \<Rightarrow> None
         | Some r \<Rightarrow> (if at_line_end r then Some (''---'', []) else None))
      else None)"


section \<open>The Markdown renderer for e-mail\<close>

record styles =
  s_h1 :: string
  s_h2 :: string
  s_h3 :: string
  s_h4 :: string
  s_p :: string
  s_a :: string
  s_blockquote :: string
  s_code :: string
  s_pre :: string
  s_hr :: string
  s_ul :: string
  s_ol :: string
  s_li :: string
  s_table :: string
  s_th :: string
  s_td :: string
  s_strong :: string
  s_em :: string

definition styles_for :: "bool \<Rightarrow> styles" where
  \<open>styles_for isLabs =
     \<lparr>
      s_h1 =
        (if isLabs
         then ''style="font-size: 36px; font-weight: 900; letter-spacing: -0.02em; line-height: 1.0; color: #000000; margin: 0 0 20px 0; padding-bottom: 20px; border-bottom: 2px solid #000000;"''
         else ''style="font-size: 32px; font-weight: 700; letter-spacing: -0.045em; line-height: 1.1; color: #000000; margin: 0 0 20px 0; padding-bottom: 20px; border-bottom: 2px solid #0e3b46;"''),
      s_h2 =
        (if isLabs
         then ''style="font-size: 22px; font-weight: 900; text-transform: uppercase; letter-spacing: 0.05em; line-height: 1.2; color: #000000; margin: 32px 0 16px 0; padding-bottom: 8px; border-bottom: 1px solid #000000;"''
         else ''style="font-size: 24px; font-weight: 700; letter-spacing: -0.03em; line-height: 1.2; color: #000000; margin: 32px 0 16px 0; padding-bottom: 8px; border-bottom: 1px solid #d4d3cf;"''),
      s_h3 =
        (if isLabs
         then ''style="font-size: 18px; font-weight: 700; line-height: 1.3; color: #000000; margin: 24px 0 12px 0;"''
         else ''style="font-size: 18px; font-weight: 700; letter-spacing: -0.02em; line-height: 1.3; color: #000000; margin: 24px 0 12px 0;"''),
      s_h4 =
        ''style="font-size: 16px; font-weight: 700; color: #000000; margin: 20px 0 8px 0;"'',
      s_p =
        ''style="font-size: 16px; line-height: 1.6; color: #000000; margin: 0 0 16px 0;"'',
      s_a =
        (if isLabs
         then ''style="color: #0055aa; text-decoration: underline;"''
         else ''style="color: #0e3b46; text-decoration: none; border-bottom: 1px solid #0e3b46;"''),
      s_blockquote =
        (if isLabs
         then ''style="margin: 20px 0; padding: 16px; background: white; border: 1px solid #000000; border-left: 4px solid #0055aa; color: #000000;"''
         else ''style="margin: 20px 0; padding: 16px 20px; border-left: 3px solid #0e3b46; background: rgba(14, 59, 70, 0.03); font-style: italic; color: #000000;"''),
      s_code =
        (if isLabs
         then ''style="font-family: 'Courier New', monospace; font-size: 14px; background: #e6e4dc; padding: 2px 6px; border: 1px solid rgba(0, 0, 0, 0.2); color: #000000;"''
         else ''style="font-family: 'Courier New', monospace; font-size: 14px; background: rgba(14, 59, 70, 0.06); padding: 2px 6px; border-radius: 3px; color: #000000;"''),
      s_pre =
        ''style="margin: 20px 0; padding: 20px; background: #f4f4f4; color: #1a1a1a; overflow-x: auto; font-family: 'Courier New', monospace; font-size: 14px; line-height: 1.5; border-radius: 6px; border: 1px solid #d0d0d0;"'',
      s_hr =
        (if isLabs
         then ''style="margin: 32px 0; border: none; border-top: 2px solid #000000;"''
         else ''style="margin: 32px 0; border: none; height: 1px; background: #d4d3cf;"''),
      s_ul =
        ''style="margin: 0 0 16px 0; padding-left: 24px;"'',
      s_ol =
        ''style="margin: 0 0 16px 0; padding-left: 24px;"'',
      s_li =
        ''style="font-size: 16px; line-height: 1.6; color: #000000; margin-bottom: 8px;"'',
      s_table =
        ''style="width: 100%; margin: 20px 0; border-collapse: collapse; font-size: 15px;"'',
      s_th =
        (if isLabs
         then ''style="padding: 10px 12px; text-align: left; border: 1px solid #000000; font-family: 'Courier New', monospace; font-size: 11px; font-weight: 700; text-transform: uppercase; letter-spacing: 0.1em; background: #000000; color: #ffffff;"''
         else ''style="padding: 10px 12px; text-align: left; border-bottom: 1px solid #d4d3cf; font-family: 'Courier New', monospace; font-size: 12px; font-weight: 500; text-transform: uppercase; letter-spacing: 0.12em; color: #000000; background: rgba(14, 59, 70, 0.03);"''),
      s_td =
        (if isLabs
         then ''style="padding: 10px 12px; text-align: left; border: 1px solid #000000; font-size: 15px; color: #000000;"''
         else ''style="padding: 10px 12px; text-align: left; border-bottom: 1px solid #d4d3cf; font-size: 15px; color: #000000;"''),
      s_strong =
        ''style="font-weight: 700;"'',
      s_em =
        ''style="font-style: italic;"''
     \<rparr>\<close>

definition isLabs :: "string \<Rightarrow> bool" where
  "isLabs style = (style = ''labs'')"

text \<open>The five replacements that escape the content of a fenced block, in their order.\<close>

definition escape_html :: "string \<Rightarrow> string" where
  "escape_html s =
     replace_char (CHR 0x27) ''&#039;''
       (replace_char (CHR 0x22) ''&quot;''
         (replace_char (CHR ''>'') ''&gt;''
           (replace_char (CHR ''<'') ''&lt;''
             (replace_char (CHR ''&'') ''&amp;'' s))))"

definition code_block :: "styles \<Rightarrow> string \<Rightarrow> string list \<Rightarrow> string" where
  "code_block st mt gs =
     ''<pre '' @ s_pre st @ ''><code>'' @ escape_html (trim (group 1 gs)) @ ''</code></pre>''"

text \<open>The callback of the table replacement.\<close>

definition parseRow :: "string \<Rightarrow> string list" where
  "parseRow row = map trim (butlast (tl (split_on (CHR ''|'') row)))"

text \<open>\<^verbatim>\<open>/^\|[\s:-]+\|$/.test(row.replace(/\|/g, "|"))\<close>\<close>

definition isSeparator :: "string \<Rightarrow> bool" where
  "isSeparator row =
     (case replace_char (CHR ''|'') ''|'' row of
        [] \<Rightarrow> False
      | c # r \<Rightarrow>
          c = CHR ''|''
          \<and> takeWhile (\<lambda>x. is_space x \<or> x = CHR '':'' \<or> x = CHR ''-'') r \<noteq> []
          \<and> dropWhile (\<lambda>x. is_space x \<or> x = CHR '':'' \<or> x = CHR ''-'') r = ''|'')"

definition table_block :: "styles \<Rightarrow> string \<Rightarrow> string list \<Rightarrow> string" where
  "table_block st tableBlock gs =
     (let rows = filter (\<lambda>r. trim r \<noteq> []) (split_on (CHR 0x0A) (trim tableBlock)) in
      if length rows < 2 then tableBlock
      else
        (let headerCells = parseRow (hd rows);
             dataRows = filter (\<lambda>r. \<not> isSeparator r) (tl rows)
         in ''<table '' @ s_table st @ ''><thead><tr>''
            @ concat (map (\<lambda>cell. ''<th '' @ s_th st @ ''>'' @ cell @ ''</th>'') headerCells)
            @ ''</tr></thead><tbody>''
            @ concat (map (\<lambda>row. ''<tr>''
                  @ concat (map (\<lambda>cell. ''<td '' @ s_td st @ ''>'' @ cell @ ''</td>'') (parseRow row))
                  @ ''</tr>'') dataRows)
            @ ''</tbody></table>''))"

text \<open>\<^verbatim>\<open>line.replace(/^>\s?/, "")\<close>\<close>

fun strip_quote_mark :: "string \<Rightarrow> string" where
  "strip_quote_mark [] = []"
| "strip_quote_mark [c] = (if c = CHR ''>'' then [] else [c])"
| "strip_quote_mark (c # d # r) =
     (if c = CHR ''>'' then (if is_space d then r else d # r) else c # d # r)"

definition quote_block :: "styles \<Rightarrow> string \<Rightarrow> string list \<Rightarrow> string" where
  "quote_block st mt gs =
     (let lines = filter (\<lambda>l. l \<noteq> [])
                    (map (\<lambda>l. trim (strip_quote_mark l))
                      (filter (\<lambda>l. trim l \<noteq> []) (split_on (CHR 0x0A) mt)))
      in if lines = [] then []
         else ''<blockquote '' @ s_blockquote st @ ''><p '' @ s_p st @ ''>''
              @ join ''<br>'' lines @ ''</p></blockquote>'')"

text \<open>\<^verbatim>\<open>line.replace(/^- /, "")\<close> and \<^verbatim>\<open>line.replace(/^\d+\. /, "")\<close>\<close>

definition strip_bullet :: "string \<Rightarrow> string" where
  "strip_bullet l = (case strip_prefix ''- '' l of None \<Rightarrow> l | Some r \<Rightarrow> r)"

definition strip_number :: "string \<Rightarrow> string" where
  "strip_number l =
     (if takeWhile is_digit l = [] then l
      else (case strip_prefix ''. '' (dropWhile is_digit l) of None \<Rightarrow> l | Some r \<Rightarrow> r))"

definition list_block :: "string \<Rightarrow> string \<Rightarrow> string \<Rightarrow> (string \<Rightarrow> string) \<Rightarrow> string \<Rightarrow> string list \<Rightarrow> string" where
  "list_block tag st_list st_li strip mt gs =
     ''<'' @ tag @ '' '' @ st_list @ ''>'' @ [CHR 0x0A]
     @ join [CHR 0x0A]
         (map (\<lambda>l. ''<li '' @ st_li @ ''>'' @ strip l @ ''</li>'')
           (filter (\<lambda>l. trim l \<noteq> []) (split_on (CHR 0x0A) mt)))
     @ [CHR 0x0A] @ ''</'' @ tag @ ''>''"

text \<open>The two tests of the paragraph loop on a trimmed line.\<close>

definition isBlockElement :: "string \<Rightarrow> bool" where
  "isBlockElement trimmed =
     (list_ex (\<lambda>t. starts_with (''<'' @ t) trimmed)
        [''h1'', ''h2'', ''h3'', ''h4'', ''h5'', ''h6'', ''ul'', ''ol'', ''li'', ''blockquote'',
         ''pre'', ''hr'', ''p'', ''table'', ''thead'', ''tbody'', ''tr'', ''th'', ''td'']
      \<or> list_ex (\<lambda>t. starts_with (''</'' @ t @ ''>'') trimmed)
        [''h1'', ''h2'', ''h3'', ''h4'', ''h5'', ''h6'', ''ul'', ''ol'', ''li'', ''blockquote'',
         ''pre'', ''p'', ''table'', ''thead'', ''tbody'', ''tr'', ''th'', ''td''])"

text \<open>
  The loop that wraps loose text in paragraphs: \<open>inParagraph\<close> is the flag of the source,
  the result is \<^verbatim>\<open>processedLines\<close> with the closing tag pushed after the loop.
\<close>

fun wrap_paragraphs :: "string \<Rightarrow> bool \<Rightarrow> string list \<Rightarrow> string list" where
  "wrap_paragraphs st inParagraph [] = (if inParagraph then [''</p>''] else [])"
| "wrap_paragraphs st inParagraph (line # rest) =
     (if trim line = [] \<or> isBlockElement (trim line) then
        (if inParagraph then [''</p>''] else []) @ line # wrap_paragraphs st False rest
      else if \<not> inParagraph then
        (''<p '' @ st @ ''>'' @ line) # wrap_paragraphs st True rest
      else line # wrap_paragraphs st True rest)"

record Rendered =
  r_html :: string
  r_title :: string

definition extract_title :: "string \<Rightarrow> string" where
  "extract_title md =
     (case first_match (re_heading ''# '') None md of
        None \<Rightarrow> ''Report''
      | Some (mt, gs) \<Rightarrow> group 0 gs)"

definition code_blocks_pass :: "styles \<Rightarrow> string \<Rightarrow> string" where
  "code_blocks_pass st s = replace_all re_code_fence (code_block st) None s"

definition tables_pass :: "styles \<Rightarrow> string \<Rightarrow> string" where
  "tables_pass st s = replace_all (re_lines table_line) (table_block st) None s"

definition heading_pass :: "string \<Rightarrow> string \<Rightarrow> string \<Rightarrow> string \<Rightarrow> string" where
  "heading_pass marks tag st s =
     replace_all (re_heading marks)
       (\<lambda>mt gs. ''<'' @ tag @ '' '' @ st @ ''>'' @ group 0 gs @ ''</'' @ tag @ ''>'') None s"

definition headings_pass :: "styles \<Rightarrow> string \<Rightarrow> string" where
  "headings_pass st s =
     heading_pass ''# '' ''h1'' (s_h1 st)
       (heading_pass ''## '' ''h2'' (s_h2 st)
         (heading_pass ''### '' ''h3'' (s_h3 st)
           (heading_pass ''#### '' ''h4'' (s_h4 st) s)))"

definition inline_pass :: "styles \<Rightarrow> string \<Rightarrow> string" where
  \<open>inline_pass st s =
     replace_all re_rule (\<lambda>mt gs. ''<hr '' @ s_hr st @ ''>'') None
       (replace_all (re_delimited (CHR 0x60))
          (\<lambda>mt gs. ''<code '' @ s_code st @ ''>'' @ group 0 gs @ ''</code>'') None
         (replace_all re_link
            (\<lambda>mt gs. ''<a href="'' @ group 1 gs @ ''" '' @ s_a st @ ''>'' @ group 0 gs @ ''</a>'') None
           (replace_all (re_delimited (CHR ''*''))
              (\<lambda>mt gs. ''<em '' @ s_em st @ ''>'' @ group 0 gs @ ''</em>'') None
             (replace_all re_strong
                (\<lambda>mt gs. ''<strong '' @ s_strong st @ ''>'' @ group 0 gs @ ''</strong>'') None s))))\<close>

definition blockquotes_pass :: "styles \<Rightarrow> string \<Rightarrow> string" where
  "blockquotes_pass st s = replace_all (re_lines quote_line) (quote_block st) None s"

definition lists_pass :: "styles \<Rightarrow> string \<Rightarrow> string" where
  "lists_pass st s =
     replace_all (re_lines numbered_line) (list_block ''ol'' (s_ol st) (s_li st) strip_number) None
       (replace_all (re_lines bullet_line) (list_block ''ul'' (s_ul st) (s_li st) strip_bullet) None s)"

definition paragraphs_pass :: "styles \<Rightarrow> string \<Rightarrow> string" where
  "paragraphs_pass st s =
     join [CHR 0x0A] (wrap_paragraphs (s_p st) False (split_on (CHR 0x0A) s))"

definition markdownToEmailHtml :: "string \<Rightarrow> string \<Rightarrow> Rendered" where
  "markdownToEmailHtml md style =
     (let st = styles_for (isLabs style) in
      \<lparr> r_html =
          paragraphs_pass st
            (lists_pass st
              (blockquotes_pass st
                (inline_pass st
                  (headings_pass st
                    (tables_pass st
                      (code_blocks_pass st md)))))),
        r_title = extract_title md \<rparr>)"

section \<open>Notions used in the proofs\<close>

text \<open>What the proofs use of a delimiter line: the characters it has and has not.\<close>

definition delimiter_like :: "string \<Rightarrow> bool" where
  "delimiter_like d =
     (d \<noteq> [] \<and> CHR '' '' \<notin> set d \<and> CHR 0x22 \<notin> set d \<and> CHR ''.'' \<notin> set d
      \<and> CHR ''-'' \<in> set d \<and> CHR 0x0D \<notin> set d)"


text \<open>
  No character that stands at the start of a line of \<open>s\<close> satisfies \<open>T\<close>; \<open>prev\<close> is the
  character before \<open>s\<close>.
\<close>

fun heads_ok :: "(char \<Rightarrow> bool) \<Rightarrow> char option \<Rightarrow> string \<Rightarrow> bool" where
  "heads_ok T prev [] = True"
| "heads_ok T prev (c # cs) = ((\<not> at_line_start prev \<or> \<not> T c) \<and> heads_ok T (Some c) cs)"

text \<open>
  Text on which no later pass acts: one line, without asterisk, opening square bracket
  or backtick.
\<close>

definition inert :: "string \<Rightarrow> bool" where
  "inert x =
     list_all (\<lambda>c. \<not> is_line_terminator c \<and> c \<noteq> CHR ''*'' \<and> c \<noteq> CHR ''['' \<and> c \<noteq> CHR 0x60) x"




text \<open>
  The lines of a document, ended by a line feed or a carriage return each, and the first
  of them that is a level-1 heading with a text.
\<close>

fun doc_lines :: "string \<Rightarrow> string list" where
  "doc_lines [] = [[]]"
| "doc_lines (c # cs) =
     (if is_line_terminator c then [] # doc_lines cs
      else (case doc_lines cs of [] \<Rightarrow> [[c]] | l # ls \<Rightarrow> (c # l) # ls))"

definition heading_text :: "string \<Rightarrow> string option" where
  "heading_text l =
     (case strip_prefix ''# '' l of
        None \<Rightarrow> None
      | Some t \<Rightarrow> (if t = [] then None else Some t))"

fun first_heading :: "string list \<Rightarrow> string option" where
  "first_heading [] = None"
| "first_heading (l # ls) =
     (case heading_text l of None \<Rightarrow> first_heading ls | Some t \<Rightarrow> Some t)"






section \<open>Properties of the base64url encoding\<close>

lemma div16_less: "(y::nat) < 256 \<Longrightarrow> y div 16 < 16"
  using less_mult_imp_div_less[of y 16 16] by simp

lemma div64_less: "(y::nat) < 256 \<Longrightarrow> y div 64 < 4"
  using less_mult_imp_div_less[of y 4 64] by simp

lemma div4_less: "(y::nat) < 256 \<Longrightarrow> y div 4 < 64"
  using less_mult_imp_div_less[of y 64 4] by simp

lemma sextet_bounds:
  assumes "(x::nat) < 256" and "y < 256" and "z < 256"
  shows "x div 4 < 64 \<and> x mod 4 * 16 + y div 16 < 64 \<and> y mod 16 * 4 + z div 64 < 64
         \<and> z mod 64 < 64 \<and> x mod 4 * 16 < 64 \<and> y mod 16 * 4 < 64"
proof -
  have "x mod 4 < 4" and "y mod 16 < 16" by simp_all
  with div4_less[OF assms(1)] div16_less[OF assms(2)] div64_less[OF assms(3)]
  show ?thesis by linarith
qed

lemmas char_sextets = sextet_bounds[OF nat_of_char_less_256 nat_of_char_less_256 nat_of_char_less_256]
lemmas char_div16 = div16_less[OF nat_of_char_less_256]
lemmas char_div64 = div64_less[OF nat_of_char_less_256]

lemma char_eq_nat: "(c = d) = ((of_char c :: nat) = of_char d)"
  by simp

lemma b64_digit_range:
  "n < 64 \<Longrightarrow> \<not> n < 52 \<Longrightarrow> n < 62 \<Longrightarrow> (n::nat) - 4 \<noteq> 61 \<and> n - 4 \<noteq> 45 \<and> n - 4 \<noteq> 95"
  by linarith

lemma b64_val_char: "n < 64 \<Longrightarrow> b64_val (b64_char n) = n"
  by (auto simp: b64_val_def b64_char_def Let_def)

lemma b64_char_not_pad: "n < 64 \<Longrightarrow> b64_char n \<noteq> CHR ''=''"
  using b64_digit_range[of n] by (simp add: b64_char_def char_eq_nat)

lemma b64_char_not_url:
  "n < 64 \<Longrightarrow> b64_char n \<noteq> CHR ''-'' \<and> b64_char n \<noteq> CHR ''_''"
  using b64_digit_range[of n] by (simp add: b64_char_def char_eq_nat)

lemma replace_char_single: "replace_char c [d] xs = map (\<lambda>x. if x = c then d else x) xs"
  by (induction xs) auto

lemma url_subst_map:
  "replace_char (CHR ''/'') ''_'' (replace_char (CHR ''+'') ''-'' xs) = map url_char xs"
  by (simp add: replace_char_single url_char_def)

lemma undo_url_b64: "n < 64 \<Longrightarrow> undo_url_char (url_char (b64_char n)) = b64_char n"
  using b64_char_not_url[of n] by (auto simp: undo_url_char_def url_char_def)

lemma url_char_not_pad: "n < 64 \<Longrightarrow> url_char (b64_char n) \<noteq> CHR ''=''"
  using b64_char_not_pad[of n] by (auto simp: url_char_def)

lemma url_char_clean:
  "n < 64 \<Longrightarrow> CHR ''='' \<noteq> url_char (b64_char n) \<and> CHR ''+'' \<noteq> url_char (b64_char n)
     \<and> CHR ''/'' \<noteq> url_char (b64_char n)"
  using b64_char_not_pad[of n] by (auto simp: url_char_def)

lemma url_char_b64_val: "n < 64 \<Longrightarrow> b64_val (undo_url_char (url_char (b64_char n))) = n"
  by (simp add: undo_url_b64 b64_val_char)

lemma url_char_pad: "url_char (CHR ''='') = CHR ''=''"
  by (simp add: url_char_def)

lemma base64url_roundtrip: "from_base64url (to_base64url bytes) = bytes"
  unfolding from_base64url_def to_base64url_def url_subst_map
proof (induction bytes rule: base64_encode.induct)
  case 1
  show ?case by simp
next
  case (2 a)
  show ?case
    using char_sextets[of a a a]
    by (simp add: Let_def url_char_not_pad url_char_b64_val url_char_pad)
next
  case (3 a b)
  show ?case
    using char_sextets[of a b b] char_div16[of b]
    by (simp add: Let_def url_char_not_pad url_char_b64_val url_char_pad)
next
  case (4 a b c rest)
  then show ?case
    using char_sextets[of a b c] char_div16[of b] char_div64[of c]
    by (simp add: Let_def url_char_not_pad url_char_b64_val)
qed

lemma base64url_alphabet:
  "CHR ''+'' \<notin> set (to_base64url bytes) \<and> CHR ''/'' \<notin> set (to_base64url bytes)
   \<and> CHR ''='' \<notin> set (to_base64url bytes)"
  unfolding to_base64url_def url_subst_map
proof (induction bytes rule: base64_encode.induct)
  case 1
  show ?case by simp
next
  case (2 a)
  show ?case
    using char_sextets[of a a a]
    by (simp add: Let_def url_char_clean url_char_pad)
next
  case (3 a b)
  show ?case
    using char_sextets[of a b b]
    by (simp add: Let_def url_char_clean url_char_pad)
next
  case (4 a b c rest)
  then show ?case
    using char_sextets[of a b c]
    by (simp add: Let_def url_char_clean)
qed

text \<open>
  Claim C2. For every input, the string returned by \<^verbatim>\<open>createRawMessage\<close> contains no
  \<^verbatim>\<open>+\<close>, no \<^verbatim>\<open>/\<close> and no \<^verbatim>\<open>=\<close> (so none at its end), and reversing the two
  substitutions and decoding base64 gives back exactly the bytes of the assembled message
  that went into the encoder.
\<close>

theorem createRawMessage_base64url:
  "CHR ''+'' \<notin> set (createRawMessage ts to subject body from html attachments inlineImages)
   \<and> CHR ''/'' \<notin> set (createRawMessage ts to subject body from html attachments inlineImages)
   \<and> CHR ''='' \<notin> set (createRawMessage ts to subject body from html attachments inlineImages)
   \<and> from_base64url (createRawMessage ts to subject body from html attachments inlineImages)
       = buildMessage ts to subject body from html attachments inlineImages"
  unfolding createRawMessage_def
  using base64url_alphabet[of "buildMessage ts to subject body from html attachments inlineImages"]
  by (simp add: base64url_roundtrip)

section \<open>Properties of the envelope builder\<close>

text \<open>
  Claim C10. Within one call the three boundary strings are built from the same time
  stamp with three different labels, so they are pairwise distinct; an inner boundary
  is never the outer one.
\<close>

theorem boundaries_pairwise_distinct:
  "mixedBoundary ts \<noteq> altBoundary ts \<and> mixedBoundary ts \<noteq> relatedBoundary ts
   \<and> altBoundary ts \<noteq> relatedBoundary ts"
  by (simp add: mixedBoundary_def altBoundary_def relatedBoundary_def)

text \<open>
  Claim C1, the branch without optional inputs. The array of that branch goes through
  \<^verbatim>\<open>.filter(Boolean)\<close> as a whole, which drops the empty string that was to separate the
  header block from the body (and an empty body): the decoded message is the header
  lines with the body as the line right after \<^verbatim>\<open>Content-Type\<close>, so the output has a header
  block only and no \<^verbatim>\<open>text/plain\<close> part with that body. The five multipart branches filter
  the header array alone and keep their blank lines.
\<close>

theorem plain_text_message:
  \<open>from_base64url (createRawMessage ts to subject body None None None None)
   = ''MIME-Version: 1.0'' @ nl @ ''To: '' @ to @ nl @ ''Subject: '' @ subject @ nl
     @ ''Content-Type: text/plain; charset="UTF-8"''
     @ (if body = [] then [] else nl @ body)\<close>
  by (simp add: createRawMessage_def base64url_roundtrip buildMessage_def)

section \<open>The parts of the envelope\<close>

lemma join_Cons: "join sep (x # xs) = (if xs = [] then x else x @ sep @ join sep xs)"
  by (cases xs) simp_all

lemma join_append:
  "join sep (xs @ ys) =
     join sep xs @ (if xs = [] \<or> ys = [] then [] else sep) @ join sep ys"
  by (induction xs) (auto simp: join_Cons)

lemma join_map_member:
  assumes "y \<in> set ys"
  shows "\<exists>pre post. join sep (map f ys) = pre @ f y @ post"
proof -
  from assms obtain as bs where "ys = as @ y # bs"
    by (auto simp: in_set_conv_decomp)
  then have "join sep (map f ys) =
      (join sep (map f as) @ (if as = [] then [] else sep))
      @ f y @ (if bs = [] then [] else sep @ join sep (map f bs))"
    by (simp add: join_append join_Cons)
  then show ?thesis by blast
qed

lemma inlinePart_text:
  \<open>contentId img = Some cid \<Longrightarrow>
   inlinePart b img =
     ''--'' @ b @ nl
     @ ''Content-Type: '' @ mimeType img @ ''; name="'' @ filename img @ ''"'' @ nl
     @ ''Content-Transfer-Encoding: base64'' @ nl
     @ ''Content-Disposition: inline; filename="'' @ filename img @ ''"'' @ nl
     @ ''Content-ID: <'' @ cid @ ''>'' @ nl @ nl
     @ base64Content (content img)\<close>
  by (simp add: inlinePart_def)

lemma infix_ctx: "x = pre @ m @ post \<Longrightarrow> \<exists>pre' post'. a @ x @ b = pre' @ m @ post'"
  by (metis append.assoc)

lemma buildMessage_inline_part:
  assumes "truthy html" and "img \<in> set imgs"
  shows "\<exists>pre post. buildMessage ts to subject body from html attachments (Some imgs)
           = pre @ inlinePart (relatedBoundary ts) img @ post"
proof -
  from assms(2) have ne: "imgs \<noteq> []" by auto
  from join_map_member[OF assms(2), of nl "inlinePart (relatedBoundary ts)"]
  obtain p q where j: "join nl (map (inlinePart (relatedBoundary ts)) imgs)
      = p @ inlinePart (relatedBoundary ts) img @ q" by blast
  show ?thesis
  proof (cases "hasItems attachments")
    case True
    then have "buildMessage ts to subject body from html attachments (Some imgs) =
       (headers to from subject
          (''Content-Type: multipart/mixed; boundary='' @ [CHR 0x22] @ mixedBoundary ts @ [CHR 0x22])
        @ nl @ nl
        @ join nl [''--'' @ mixedBoundary ts,
                   ''Content-Type: multipart/related; boundary='' @ [CHR 0x22] @ relatedBoundary ts @ [CHR 0x22]]
        @ nl @ nl
        @ htmlPart (relatedBoundary ts) (text_of html) @ nl)
        @ join nl (map (inlinePart (relatedBoundary ts)) imgs) @ (nl
        @ ''--'' @ relatedBoundary ts @ ''--'' @ nl
        @ join nl (map (attachmentPart (mixedBoundary ts)) (items attachments)) @ nl
        @ ''--'' @ mixedBoundary ts @ ''--'')"
      using assms(1) ne by (simp add: buildMessage_def)
    then show ?thesis using infix_ctx[OF j] by metis
  next
    case False
    then have "buildMessage ts to subject body from html attachments (Some imgs) =
       (headers to from subject
          (''Content-Type: multipart/related; boundary='' @ [CHR 0x22] @ relatedBoundary ts @ [CHR 0x22])
        @ nl @ nl
        @ htmlPart (relatedBoundary ts) (text_of html) @ nl)
        @ join nl (map (inlinePart (relatedBoundary ts)) imgs) @ (nl
        @ ''--'' @ relatedBoundary ts @ ''--'')"
      using assms(1) ne by (simp add: buildMessage_def)
    then show ?thesis using infix_ctx[OF j] by metis
  qed
qed

text \<open>
  Claim C8. When an HTML body is given, every inline image of the list that carries a
  content-id chosen by the caller is emitted as a part under the related boundary whose
  \<^verbatim>\<open>Content-ID\<close> header holds exactly that content-id between angle brackets, the form
  that a \<^verbatim>\<open>cid:\<close> reference in the HTML resolves to. (Without an HTML body the builder
  emits no inline part at all.)
\<close>

theorem inline_image_content_id:
  assumes "truthy html" and "img \<in> set imgs" and "contentId img = Some cid"
  shows \<open>\<exists>pre post.
     from_base64url (createRawMessage ts to subject body from html attachments (Some imgs))
     = pre
       @ ''--'' @ relatedBoundary ts @ nl
       @ ''Content-Type: '' @ mimeType img @ ''; name="'' @ filename img @ ''"'' @ nl
       @ ''Content-Transfer-Encoding: base64'' @ nl
       @ ''Content-Disposition: inline; filename="'' @ filename img @ ''"'' @ nl
       @ ''Content-ID: <'' @ cid @ ''>'' @ nl @ nl
       @ base64Content (content img)
       @ post\<close>
  using buildMessage_inline_part[OF assms(1,2), of ts to subject body "from" attachments]
  by (simp add: createRawMessage_def base64url_roundtrip inlinePart_text[OF assms(3)])

text \<open>The theorem at one image with the content-id \<^verbatim>\<open>logo\<close>.\<close>

theorem inline_image_content_id_witness:
  \<open>\<exists>pre post.
     from_base64url (createRawMessage 0 ''a@b.c'' ''s'' ''b'' None (Some ''<img src="cid:logo">'') None
        (Some [\<lparr>filename = ''l.png'', content = ''x'', mimeType = ''image/png'',
                isInline = Some True, contentId = Some ''logo''\<rparr>]))
     = pre
       @ ''--'' @ relatedBoundary 0 @ nl
       @ ''Content-Type: image/png; name="l.png"'' @ nl
       @ ''Content-Transfer-Encoding: base64'' @ nl
       @ ''Content-Disposition: inline; filename="l.png"'' @ nl
       @ ''Content-ID: <logo>'' @ nl @ nl
       @ base64Content ''x''
       @ post\<close>
  using inline_image_content_id[of "Some ''<img src=\"cid:logo\">''"
      "\<lparr>filename = ''l.png'', content = ''x'', mimeType = ''image/png'',
                isInline = Some True, contentId = Some ''logo''\<rparr>"
      "[\<lparr>filename = ''l.png'', content = ''x'', mimeType = ''image/png'',
                isInline = Some True, contentId = Some ''logo''\<rparr>]" "''logo''"
      0 "''a@b.c''" "''s''" "''b''" None None]
  by simp

section \<open>Delimiter lines of a message\<close>

lemma split_crlf_nonempty [simp]: "split_crlf s \<noteq> []"
  by (induction s rule: split_crlf.induct) (auto split: list.splits)

lemma split_crlf_Cons:
  "split_crlf (c # s) =
     (if c = CHR 0x0D \<and> s \<noteq> [] \<and> hd s = CHR 0x0A then [] # split_crlf (tl s)
      else (c # hd (split_crlf s)) # tl (split_crlf s))"
proof (cases s)
  case Nil
  then show ?thesis by simp
next
  case (Cons d r)
  then show ?thesis
    using split_crlf_nonempty[of "d # r"] by (auto split: list.splits simp del: split_crlf_nonempty)
qed

lemma split_crlf_no_cr: "CHR 0x0D \<notin> set s \<Longrightarrow> split_crlf s = [s]"
  by (induction s) (auto simp: split_crlf_Cons)

text \<open>Text appended to a message continues its last line, unless it starts with a line feed.\<close>

lemma split_crlf_append:
  assumes "w = [] \<or> hd w \<noteq> CHR 0x0A"
  shows "split_crlf (u @ w) =
     butlast (split_crlf u) @ [last (split_crlf u) @ hd (split_crlf w)] @ tl (split_crlf w)"
  using assms
proof (induction u rule: split_crlf.induct)
  case 1
  then show ?case by simp
next
  case (2 c)
  then show ?case by (cases w) (auto simp: split_crlf_Cons)
next
  case (3 c d r)
  show ?case
  proof (cases "c = CHR 0x0D \<and> d = CHR 0x0A")
    case True
    with 3 show ?thesis by simp
  next
    case False
    have ne: "split_crlf (d # r) \<noteq> []" by simp
    have "split_crlf ((c # d # r) @ w) = (c # hd (split_crlf ((d # r) @ w))) # tl (split_crlf ((d # r) @ w))"
      using False by (simp add: split_crlf_Cons)
    also have "split_crlf ((d # r) @ w) =
        butlast (split_crlf (d # r)) @ [last (split_crlf (d # r)) @ hd (split_crlf w)] @ tl (split_crlf w)"
      using 3 False by simp
    finally show ?thesis
      using False ne
      by (cases "split_crlf (d # r)" rule: rev_cases;
          cases "butlast (split_crlf (d # r))")
         (auto simp: split_crlf_Cons butlast_append)
  qed
qed

lemma split_crlf_nl: "split_crlf (nl @ y) = [] # split_crlf y"
  by (simp add: nl_def)

lemma split_crlf_append_nl: "split_crlf (x @ nl @ y) = split_crlf x @ split_crlf y"
proof -
  have "split_crlf (x @ nl @ y) =
      butlast (split_crlf x) @ [last (split_crlf x) @ hd (split_crlf (nl @ y))] @ tl (split_crlf (nl @ y))"
    by (rule split_crlf_append) (simp add: nl_def)
  then show ?thesis by (simp add: split_crlf_nl)
qed

lemma split_crlf_join:
  "xs \<noteq> [] \<Longrightarrow> split_crlf (join nl xs) = concat (map split_crlf xs)"
proof (induction xs)
  case Nil
  then show ?case by simp
next
  case (Cons x xs)
  then show ?case by (cases "xs = []") (simp_all add: join_Cons split_crlf_append_nl)
qed

lemma count_lines_append_nl:
  "count_lines d (x @ nl @ y) = count_lines d x + count_lines d y"
  by (simp add: count_lines_def split_crlf_append_nl)

lemma count_lines_join:
  "xs \<noteq> [] \<Longrightarrow> count_lines d (join nl xs) = sum_list (map (count_lines d) xs)"
proof (induction xs)
  case Nil
  then show ?case by simp
next
  case (Cons x xs)
  then show ?case by (cases "xs = []") (simp_all add: join_Cons count_lines_append_nl)
qed

text \<open>A line that holds a character foreign to the delimiter is not the delimiter.\<close>

lemma count_lines_infix:
  assumes "q \<noteq> []" and "CHR 0x0D \<notin> set q" and "CHR 0x0A \<notin> set q"
    and "c \<in> set q" and "c \<notin> set d"
  shows "count_lines d (u @ q @ v) \<le> count_lines d u + count_lines d v"
proof -
  have hq: "hd (q @ v) \<noteq> CHR 0x0A"
    using assms(1,3) by (cases q) auto
  have qv: "split_crlf (q @ v) = (q @ hd (split_crlf v)) # tl (split_crlf v)"
    using assms(1,2)
  proof (induction q)
    case Nil
    then show ?case by simp
  next
    case (Cons a q)
    then show ?case by (cases "q = []") (auto simp: split_crlf_Cons)
  qed
  have "split_crlf (u @ q @ v) =
      butlast (split_crlf u) @ [last (split_crlf u) @ q @ hd (split_crlf v)] @ tl (split_crlf v)"
    using split_crlf_append[of "q @ v" u] hq by (simp add: qv)
  moreover have "last (split_crlf u) @ q @ hd (split_crlf v) \<noteq> d"
    using assms(4,5) by auto
  moreover have "length (filter (\<lambda>l. l = d) (butlast (split_crlf u)))
      \<le> length (filter (\<lambda>l. l = d) (split_crlf u))"
    by (metis append_butlast_last_id filter_append le_add1 length_append split_crlf_nonempty)
  moreover have "length (filter (\<lambda>l. l = d) (tl (split_crlf v)))
      \<le> length (filter (\<lambda>l. l = d) (split_crlf v))"
    by (cases "split_crlf v") auto
  ultimately show ?thesis by (simp add: count_lines_def)
qed

lemma count_lines_prefix:
  assumes "q \<noteq> []" and "CHR 0x0D \<notin> set q" and "CHR 0x0A \<notin> set q"
    and "c \<in> set q" and "c \<notin> set d" and "count_lines d v = 0" and "d \<noteq> []"
  shows "count_lines d (q @ v) = 0"
proof -
  have "count_lines d ([] @ q @ v) \<le> count_lines d [] + count_lines d v"
    by (rule count_lines_infix[OF assms(1-5)])
  moreover have "count_lines d [] = 0"
    using assms(7) by (auto simp: count_lines_def)
  ultimately show ?thesis using assms(6) by simp
qed

lemma count_lines_single:
  "CHR 0x0D \<notin> set s \<Longrightarrow> count_lines d s = (if s = d then 1 else 0)"
  by (simp add: count_lines_def split_crlf_no_cr)

lemma split_crlf_subset: "l \<in> set (split_crlf s) \<Longrightarrow> set l \<subseteq> set s"
proof (induction s arbitrary: l rule: split_crlf.induct)
  case 1
  then show ?case by simp
next
  case (2 c)
  then show ?case by simp
next
  case (3 c d r)
  show ?case
  proof (cases "c = CHR 0x0D \<and> d = CHR 0x0A")
    case True
    with 3 show ?thesis by auto
  next
    case False
    obtain a as where sp: "split_crlf (d # r) = a # as"
      by (cases "split_crlf (d # r)") auto
    with False 3(3) have "l = c # a \<or> l \<in> set as" by auto
    moreover have "set a \<subseteq> set (d # r)" using 3(2)[OF False, of a] sp by simp
    moreover have "l \<in> set as \<Longrightarrow> set l \<subseteq> set (d # r)" using 3(2)[OF False, of l] sp by simp
    ultimately show ?thesis by auto
  qed
qed

lemma count_lines_foreign:
  assumes "c \<in> set d" and "c \<notin> set s"
  shows "count_lines d s = 0"
proof -
  have "l \<noteq> d" if "l \<in> set (split_crlf s)" for l
    using split_crlf_subset[OF that] assms by auto
  then show ?thesis by (auto simp: count_lines_def filter_empty_conv)
qed

lemma digit_char_digit: "d < 10 \<Longrightarrow> digit_char d \<in> set ''0123456789''"
  unfolding digit_char_def by (rule nth_mem) simp

lemma show_nat_digits: "set (show_nat n) \<subseteq> set ''0123456789''"
proof (induction n rule: show_nat.induct)
  case (1 n)
  show ?case
  proof (cases "n < 10")
    case True
    then show ?thesis using digit_char_digit[of n] by (subst show_nat.simps) simp
  next
    case False
    have "n mod 10 < 10" by simp
    then show ?thesis
      using False 1 digit_char_digit[of "n mod 10"] by (subst show_nat.simps) simp
  qed
qed

lemma show_nat_foreign: "c \<notin> set ''0123456789'' \<Longrightarrow> c \<notin> set (show_nat n)"
  using show_nat_digits[of n] by blast

lemma boundary_foreign:
  "CHR '' '' \<notin> set (show_nat n)" "CHR 0x22 \<notin> set (show_nat n)" "CHR ''.'' \<notin> set (show_nat n)"
  "CHR 0x0D \<notin> set (show_nat n)"
  by (rule show_nat_foreign, simp)+

lemma delimiter_like_open: "delimiter_like (''--'' @ mixedBoundary ts)"
  by (simp add: delimiter_like_def mixedBoundary_def boundary_foreign)

lemma delimiter_like_close: "delimiter_like (''--'' @ mixedBoundary ts @ ''--'')"
  by (simp add: delimiter_like_def mixedBoundary_def boundary_foreign)

lemma delimiter_like_alt_open: "delimiter_like (''--'' @ altBoundary ts)"
  by (simp add: delimiter_like_def altBoundary_def boundary_foreign)

lemma delimiter_like_alt_close: "delimiter_like (''--'' @ altBoundary ts @ ''--'')"
  by (simp add: delimiter_like_def altBoundary_def boundary_foreign)

lemma count_lines_label:
  assumes "delimiter_like d" and "count_lines d u = 0"
    and "q \<noteq> []" and "CHR 0x0D \<notin> set q" and "CHR 0x0A \<notin> set q" and "CHR '' '' \<in> set q"
  shows "count_lines d (q @ u) = 0"
proof -
  have 1: "CHR '' '' \<notin> set d" and 2: "d \<noteq> []"
    using assms(1) by (simp_all add: delimiter_like_def)
  show ?thesis
    by (rule count_lines_prefix[OF assms(3,4,5,6) 1 assms(2) 2])
qed

lemma count_lines_quoted:
  assumes "delimiter_like d" and "count_lines d u = 0" and "count_lines d v = 0"
    and "q \<noteq> []" and "CHR 0x0D \<notin> set q" and "CHR 0x0A \<notin> set q" and "CHR 0x22 \<in> set q"
  shows "count_lines d (u @ q @ v) = 0"
proof -
  have "CHR 0x22 \<notin> set d" using assms(1) by (simp add: delimiter_like_def)
  from count_lines_infix[OF assms(4,5,6,7) this, of u v] assms(2,3)
  show ?thesis by simp
qed

lemma count_lines_empty: "delimiter_like d \<Longrightarrow> count_lines d [] = 0"
  by (auto simp: count_lines_def delimiter_like_def)

lemma count_lines_literal:
  assumes "delimiter_like d" and "CHR 0x0D \<notin> set s" and "CHR '' '' \<in> set s \<or> CHR ''.'' \<in> set s"
  shows "count_lines d s = 0"
proof -
  have "CHR '' '' \<notin> set d" and "CHR ''.'' \<notin> set d"
    using assms(1) by (simp_all add: delimiter_like_def)
  with assms(3) have "s \<noteq> d" by blast
  then show ?thesis by (simp add: count_lines_single[OF assms(2)])
qed

lemma match_1_76_chars: "set (concat (match_1_76 s)) \<subseteq> set s"
proof (induction s rule: match_1_76.induct)
  case 1
  then show ?case by simp
next
  case (2 c cs)
  show ?case
  proof (cases "is_line_terminator c")
    case True
    then have "match_1_76 (c # cs) = match_1_76 cs"
      by (subst match_1_76.simps) (simp only: if_True)
    moreover have "set (concat (match_1_76 cs)) \<subseteq> set cs"
      by (rule 2(1)[OF True])
    ultimately show ?thesis by (simp only: set_simps) blast
  next
    case False
    define m where "m = take 76 (takeWhile (\<lambda>x. \<not> is_line_terminator x) (c # cs))"
    have eq: "match_1_76 (c # cs) = m # match_1_76 (drop (length m) (c # cs))"
      unfolding m_def using False by (subst match_1_76.simps) (simp only: if_False)
    have "set (takeWhile (\<lambda>x. \<not> is_line_terminator x) (c # cs)) \<subseteq> set (c # cs)"
      by (auto dest: set_takeWhileD)
    then have 1: "set m \<subseteq> set (c # cs)"
      unfolding m_def by (rule order_trans[OF set_take_subset])
    have "set (concat (match_1_76 (drop (length m) (c # cs)))) \<subseteq> set (drop (length m) (c # cs))"
      unfolding m_def by (rule 2(2)[OF False])
    then have 2: "set (concat (match_1_76 (drop (length m) (c # cs)))) \<subseteq> set (c # cs)"
      by (rule order_trans) (rule set_drop_subset)
    show ?thesis
      unfolding eq concat.simps set_append using 1 2 by (rule Un_least)
  qed
qed

lemma join_chars: "set (join sep xs) \<subseteq> set sep \<union> set (concat xs)"
proof (induction xs)
  case Nil
  then show ?case by simp
next
  case (Cons x xs)
  then show ?case by (cases "xs = []") (auto simp: join_Cons)
qed

lemma b64_char_not_dash: "n < 64 \<Longrightarrow> CHR ''-'' \<noteq> b64_char n"
  using b64_char_not_url[of n] by auto

lemma base64_encode_no_dash: "CHR ''-'' \<notin> set (base64_encode bytes)"
proof (induction bytes rule: base64_encode.induct)
  case 1
  show ?case by simp
next
  case (2 a)
  show ?case
    using char_sextets[of a a a] by (simp add: Let_def b64_char_not_dash)
next
  case (3 a b)
  show ?case
    using char_sextets[of a b b] by (simp add: Let_def b64_char_not_dash)
next
  case (4 a b c rest)
  then show ?case
    using char_sextets[of a b c] by (simp add: Let_def b64_char_not_dash)
qed

lemma base64Content_no_dash: "CHR ''-'' \<notin> set (base64Content bytes)"
proof -
  have "set (base64Content bytes) \<subseteq> set nl \<union> set (base64_encode bytes)"
    unfolding base64Content_def
    using join_chars[of nl "match_1_76 (base64_encode bytes)"] match_1_76_chars[of "base64_encode bytes"]
    by blast
  then show ?thesis using base64_encode_no_dash[of bytes] by (auto simp: nl_def)
qed

lemma count_lines_base64Content:
  "delimiter_like d \<Longrightarrow> count_lines d (base64Content bytes) = 0"
  using count_lines_foreign[of "CHR ''-''" d "base64Content bytes"] base64Content_no_dash
  by (simp add: delimiter_like_def)

lemma filter_Boolean_Some: "s \<noteq> [] \<Longrightarrow> filter_Boolean (Some s # xs) = s # filter_Boolean xs"
  by simp

lemma headers_count:
  assumes d: "delimiter_like d"
    and "count_lines d to = 0" and "count_lines d subject = 0"
    and "case from of None \<Rightarrow> True | Some f \<Rightarrow> count_lines d f = 0"
    and ct: "CHR 0x0D \<notin> set ct" "CHR '' '' \<in> set ct"
  shows "count_lines d (headers to from subject ct) = 0"
proof -
  have mv: "count_lines d ''MIME-Version: 1.0'' = 0"
    by (rule count_lines_literal[OF d]) simp_all
  have t: "count_lines d (''To: '' @ to) = 0"
    by (rule count_lines_label[OF d assms(2)]) simp_all
  have s: "count_lines d (''Subject: '' @ subject) = 0"
    by (rule count_lines_label[OF d assms(3)]) simp_all
  have c: "count_lines d ct = 0"
    by (rule count_lines_literal[OF d ct(1)]) (simp add: ct(2))
  have ctne: "ct \<noteq> []" using ct(2) by auto
  show ?thesis
  proof (cases "truthy from")
    case False
    then have eq: "headers to from subject ct =
        join nl [''MIME-Version: 1.0'', ''To: '' @ to, ''Subject: '' @ subject, ct]"
      using ctne by (simp add: headers_def)
    show ?thesis
      unfolding eq
      by (simp only: count_lines_join list.simps(3) not_False_eq_True list.map sum_list.Cons
            sum_list.Nil mv t s c) (simp?)
  next
    case True
    then obtain f where f: "from = Some f" "f \<noteq> []" by (cases "from") auto
    with assms(4) have "count_lines d f = 0" by simp
    then have fr: "count_lines d (''From: '' @ f) = 0"
      by (rule count_lines_label[OF d]) simp_all
    have eq: "headers to from subject ct =
        join nl [''MIME-Version: 1.0'', ''To: '' @ to, ''From: '' @ f, ''Subject: '' @ subject, ct]"
      using ctne f by (simp add: headers_def)
    show ?thesis
      unfolding eq
      by (simp only: count_lines_join list.simps(3) not_False_eq_True list.map sum_list.Cons
            sum_list.Nil mv t s c fr) (simp?)
  qed
qed

lemma attachment_header_count:
  assumes d: "delimiter_like d" and m: "count_lines d m = 0" and f: "count_lines d f = 0"
  shows \<open>count_lines d (''Content-Type: '' @ m @ ''; name="'' @ f @ ''"'') = 0\<close>
    and \<open>count_lines d (''Content-Disposition: attachment; filename="'' @ f @ ''"'') = 0\<close>
proof -
  have q: \<open>count_lines d (f @ ''"'') = 0\<close>
    using count_lines_quoted[OF d f count_lines_empty[OF d], of \<open>''"''\<close>] by simp
  have r: \<open>count_lines d (m @ ''; name="'' @ (f @ ''"'')) = 0\<close>
    by (rule count_lines_quoted[OF d m q]) simp_all
  have \<open>count_lines d (''Content-Type: '' @ (m @ ''; name="'' @ (f @ ''"''))) = 0\<close>
    by (rule count_lines_label[OF d r]) simp_all
  then show \<open>count_lines d (''Content-Type: '' @ m @ ''; name="'' @ f @ ''"'') = 0\<close> by simp
  have \<open>count_lines d (''Content-Disposition: attachment; filename="'' @ (f @ ''"'')) = 0\<close>
    by (rule count_lines_label[OF d q]) simp_all
  then show \<open>count_lines d (''Content-Disposition: attachment; filename="'' @ f @ ''"'') = 0\<close>
    by simp
qed

lemma boundary_no_cr:
  "CHR 0x0D \<notin> set (mixedBoundary ts)" "CHR 0x0D \<notin> set (altBoundary ts)"
  by (simp_all add: mixedBoundary_def altBoundary_def boundary_foreign)

lemma shape2_count:
  assumes d: "delimiter_like d"
    and u: "count_lines d to = 0" "count_lines d subject = 0" "count_lines d body = 0"
      "count_lines d h = 0" "count_lines d (mimeType att) = 0" "count_lines d (filename att) = 0"
      "case from of None \<Rightarrow> True | Some f \<Rightarrow> count_lines d f = 0"
    and h: "h \<noteq> []" and i: "\<not> hasItems inlineImages"
  shows "count_lines d (buildMessage ts to subject body from (Some h) (Some [att]) inlineImages) =
     (if ''--'' @ mixedBoundary ts = d then 2 else 0)
     + (if ''--'' @ altBoundary ts = d then 2 else 0)
     + (if ''--'' @ altBoundary ts @ ''--'' = d then 1 else 0)
     + (if ''--'' @ mixedBoundary ts @ ''--'' = d then 1 else 0)"
proof -
  let ?M = "mixedBoundary ts" and ?A = "altBoundary ts"
  let ?ct = \<open>''Content-Type: multipart/mixed; boundary="'' @ ?M @ ''"''\<close>
  let ?cta = \<open>''Content-Type: multipart/alternative; boundary="'' @ ?A @ ''"''\<close>
  let ?ctt = \<open>''Content-Type: text/plain; charset="UTF-8"''\<close>
  let ?cth = \<open>''Content-Type: text/html; charset="UTF-8"''\<close>
  let ?ctf = \<open>''Content-Type: '' @ mimeType att @ ''; name="'' @ filename att @ ''"''\<close>
  let ?cdf = \<open>''Content-Disposition: attachment; filename="'' @ filename att @ ''"''\<close>
  let ?cte = "''Content-Transfer-Encoding: base64''"
  have msg: "buildMessage ts to subject body from (Some h) (Some [att]) inlineImages =
      join nl [headers to from subject ?ct, [], ''--'' @ ?M, ?cta, [], ''--'' @ ?A, ?ctt, [], body,
               ''--'' @ ?A, ?cth, [], h, ''--'' @ ?A @ ''--'', ''--'' @ ?M, ?ctf, ?cdf, ?cte, [],
               base64Content (content att), ''--'' @ ?M @ ''--'']"
    using h i by (simp add: buildMessage_def textPart_def htmlPart_def attachmentPart_def)
  have hd: "count_lines d (headers to from subject ?ct) = 0"
    by (rule headers_count[OF d u(1,2,7)]) (simp_all add: boundary_no_cr)
  have e: "count_lines d [] = 0" by (rule count_lines_empty[OF d])
  have cta: "count_lines d ?cta = 0"
    by (rule count_lines_literal[OF d]) (simp_all add: boundary_no_cr)
  have ctt: "count_lines d ?ctt = 0" by (rule count_lines_literal[OF d]) simp_all
  have cth: "count_lines d ?cth = 0" by (rule count_lines_literal[OF d]) simp_all
  have cte: "count_lines d ?cte = 0" by (rule count_lines_literal[OF d]) simp_all
  note att = attachment_header_count[OF d u(5,6)]
  have b: "count_lines d (base64Content (content att)) = 0"
    by (rule count_lines_base64Content[OF d])
  have mo: "count_lines d (''--'' @ ?M) = (if ''--'' @ ?M = d then 1 else 0)"
    by (rule count_lines_single) (simp add: boundary_no_cr)
  have mc: "count_lines d (''--'' @ ?M @ ''--'') = (if ''--'' @ ?M @ ''--'' = d then 1 else 0)"
    by (rule count_lines_single) (simp add: boundary_no_cr)
  have ao: "count_lines d (''--'' @ ?A) = (if ''--'' @ ?A = d then 1 else 0)"
    by (rule count_lines_single) (simp add: boundary_no_cr)
  have ac: "count_lines d (''--'' @ ?A @ ''--'') = (if ''--'' @ ?A @ ''--'' = d then 1 else 0)"
    by (rule count_lines_single) (simp add: boundary_no_cr)
  show ?thesis
    unfolding msg
    by (simp only: count_lines_join list.simps(3) not_False_eq_True list.map sum_list.Cons
          sum_list.Nil hd e cta ctt cth cte att b mo mc ao ac u(3,4)) (simp?)
qed

lemma delimiter_free_counts:
  assumes "delimiter_free ts u"
  shows "count_lines (''--'' @ mixedBoundary ts) u = 0"
    and "count_lines (''--'' @ mixedBoundary ts @ ''--'') u = 0"
    and "count_lines (''--'' @ altBoundary ts) u = 0"
    and "count_lines (''--'' @ altBoundary ts @ ''--'') u = 0"
  using assms by (simp_all add: delimiter_free_def delimiters_def)

lemma delimiter_eqs:
  "(''--'' @ mixedBoundary ts = ''--'' @ mixedBoundary ts @ ''--'') = False"
  "(''--'' @ mixedBoundary ts = ''--'' @ altBoundary ts) = False"
  "(''--'' @ mixedBoundary ts = ''--'' @ altBoundary ts @ ''--'') = False"
  "(''--'' @ mixedBoundary ts @ ''--'' = ''--'' @ mixedBoundary ts) = False"
  "(''--'' @ mixedBoundary ts @ ''--'' = ''--'' @ altBoundary ts) = False"
  "(''--'' @ mixedBoundary ts @ ''--'' = ''--'' @ altBoundary ts @ ''--'') = False"
  "(''--'' @ altBoundary ts = ''--'' @ mixedBoundary ts) = False"
  "(''--'' @ altBoundary ts = ''--'' @ mixedBoundary ts @ ''--'') = False"
  "(''--'' @ altBoundary ts = ''--'' @ altBoundary ts @ ''--'') = False"
  "(''--'' @ altBoundary ts @ ''--'' = ''--'' @ mixedBoundary ts) = False"
  "(''--'' @ altBoundary ts @ ''--'' = ''--'' @ mixedBoundary ts @ ''--'') = False"
  "(''--'' @ altBoundary ts @ ''--'' = ''--'' @ altBoundary ts) = False"
  by (simp_all add: mixedBoundary_def altBoundary_def)

lemma shape2_counts:
  assumes "truthy html" and "\<not> hasItems inlineImages"
    and "delimiter_free ts to" and "delimiter_free ts subject" and "delimiter_free ts body"
    and "delimiter_free ts (text_of html)"
    and "delimiter_free ts (mimeType att)" and "delimiter_free ts (filename att)"
    and "case from of None \<Rightarrow> True | Some f \<Rightarrow> delimiter_free ts f"
  shows "count_lines (''--'' @ mixedBoundary ts)
           (buildMessage ts to subject body from html (Some [att]) inlineImages) = 2"
    and "count_lines (''--'' @ mixedBoundary ts @ ''--'')
           (buildMessage ts to subject body from html (Some [att]) inlineImages) = 1"
    and "count_lines (''--'' @ altBoundary ts)
           (buildMessage ts to subject body from html (Some [att]) inlineImages) = 2"
    and "count_lines (''--'' @ altBoundary ts @ ''--'')
           (buildMessage ts to subject body from html (Some [att]) inlineImages) = 1"
proof -
  from assms(1) obtain h where h: "html = Some h" "h \<noteq> []" by (cases html) auto
  have fr: "case from of None \<Rightarrow> True | Some f \<Rightarrow> count_lines d f = 0"
    if "d \<in> set (delimiters ts)" for d
    using assms(9) that by (cases "from") (auto simp: delimiter_free_def list_all_iff)
  have in_d: "''--'' @ mixedBoundary ts \<in> set (delimiters ts)"
    "''--'' @ mixedBoundary ts @ ''--'' \<in> set (delimiters ts)"
    "''--'' @ altBoundary ts \<in> set (delimiters ts)"
    "''--'' @ altBoundary ts @ ''--'' \<in> set (delimiters ts)"
    by (simp_all add: delimiters_def)
  note hf = assms(6)[unfolded h text_of.simps]
  have c1: "count_lines (''--'' @ mixedBoundary ts)
      (buildMessage ts to subject body from (Some h) (Some [att]) inlineImages) = 2"
    using shape2_count[OF delimiter_like_open assms(3,4,5)[THEN delimiter_free_counts(1)]
        hf[THEN delimiter_free_counts(1)] assms(7,8)[THEN delimiter_free_counts(1)]
        fr[OF in_d(1)] h(2) assms(2), of ts]
    unfolding delimiter_eqs by simp
  have c2: "count_lines (''--'' @ mixedBoundary ts @ ''--'')
      (buildMessage ts to subject body from (Some h) (Some [att]) inlineImages) = 1"
    using shape2_count[OF delimiter_like_close assms(3,4,5)[THEN delimiter_free_counts(2)]
        hf[THEN delimiter_free_counts(2)] assms(7,8)[THEN delimiter_free_counts(2)]
        fr[OF in_d(2)] h(2) assms(2), of ts]
    unfolding delimiter_eqs by simp
  have c3: "count_lines (''--'' @ altBoundary ts)
      (buildMessage ts to subject body from (Some h) (Some [att]) inlineImages) = 2"
    using shape2_count[OF delimiter_like_alt_open assms(3,4,5)[THEN delimiter_free_counts(3)]
        hf[THEN delimiter_free_counts(3)] assms(7,8)[THEN delimiter_free_counts(3)]
        fr[OF in_d(3)] h(2) assms(2), of ts]
    unfolding delimiter_eqs by simp
  have c4: "count_lines (''--'' @ altBoundary ts @ ''--'')
      (buildMessage ts to subject body from (Some h) (Some [att]) inlineImages) = 1"
    using shape2_count[OF delimiter_like_alt_close assms(3,4,5)[THEN delimiter_free_counts(4)]
        hf[THEN delimiter_free_counts(4)] assms(7,8)[THEN delimiter_free_counts(4)]
        fr[OF in_d(4)] h(2) assms(2), of ts]
    unfolding delimiter_eqs by simp
  show "count_lines (''--'' @ mixedBoundary ts)
           (buildMessage ts to subject body from html (Some [att]) inlineImages) = 2"
    unfolding h by (rule c1)
  show "count_lines (''--'' @ mixedBoundary ts @ ''--'')
           (buildMessage ts to subject body from html (Some [att]) inlineImages) = 1"
    unfolding h by (rule c2)
  show "count_lines (''--'' @ altBoundary ts)
           (buildMessage ts to subject body from html (Some [att]) inlineImages) = 2"
    unfolding h by (rule c3)
  show "count_lines (''--'' @ altBoundary ts @ ''--'')
           (buildMessage ts to subject body from html (Some [att]) inlineImages) = 1"
    unfolding h by (rule c4)
qed

text \<open>
  Claim C4, as the code has it. For one attachment, an HTML body and no inline image, and
  texts of the caller that hold no delimiter line themselves, the decoded message has
  exactly two opening delimiter lines of the mixed boundary (before the alternative part
  and before the attachment), exactly two of the alternative boundary (before the plain
  text and before the HTML), and exactly one closing delimiter line of each.
\<close>

theorem shape2_delimiter_lines:
  assumes "truthy html" and "\<not> hasItems inlineImages"
    and "delimiter_free ts to" and "delimiter_free ts subject" and "delimiter_free ts body"
    and "delimiter_free ts (text_of html)"
    and "delimiter_free ts (mimeType att)" and "delimiter_free ts (filename att)"
    and "case from of None \<Rightarrow> True | Some f \<Rightarrow> delimiter_free ts f"
  shows "count_lines (''--'' @ mixedBoundary ts)
           (from_base64url (createRawMessage ts to subject body from html (Some [att]) inlineImages)) = 2
       \<and> count_lines (''--'' @ mixedBoundary ts @ ''--'')
           (from_base64url (createRawMessage ts to subject body from html (Some [att]) inlineImages)) = 1
       \<and> count_lines (''--'' @ altBoundary ts)
           (from_base64url (createRawMessage ts to subject body from html (Some [att]) inlineImages)) = 2
       \<and> count_lines (''--'' @ altBoundary ts @ ''--'')
           (from_base64url (createRawMessage ts to subject body from html (Some [att]) inlineImages)) = 1"
  unfolding createRawMessage_def base64url_roundtrip
  using shape2_counts[OF assms] by simp

lemma delimiter_free_plain:
  "CHR ''-'' \<notin> set u \<Longrightarrow> delimiter_free ts u"
  by (simp add: delimiter_free_def delimiters_def count_lines_foreign[of "CHR ''-''"])

text \<open>The theorem at a message with one small text attachment.\<close>

theorem shape2_delimiter_lines_witness:
  "count_lines (''--'' @ mixedBoundary 0)
     (from_base64url (createRawMessage 0 ''a@b.c'' ''s'' ''b'' None (Some ''<p>h</p>'')
        (Some [\<lparr>filename = ''f.txt'', content = ''x'', mimeType = ''text/plain'',
                isInline = None, contentId = None\<rparr>]) None)) = 2
   \<and> count_lines (''--'' @ mixedBoundary 0 @ ''--'')
     (from_base64url (createRawMessage 0 ''a@b.c'' ''s'' ''b'' None (Some ''<p>h</p>'')
        (Some [\<lparr>filename = ''f.txt'', content = ''x'', mimeType = ''text/plain'',
                isInline = None, contentId = None\<rparr>]) None)) = 1
   \<and> count_lines (''--'' @ altBoundary 0)
     (from_base64url (createRawMessage 0 ''a@b.c'' ''s'' ''b'' None (Some ''<p>h</p>'')
        (Some [\<lparr>filename = ''f.txt'', content = ''x'', mimeType = ''text/plain'',
                isInline = None, contentId = None\<rparr>]) None)) = 2
   \<and> count_lines (''--'' @ altBoundary 0 @ ''--'')
     (from_base64url (createRawMessage 0 ''a@b.c'' ''s'' ''b'' None (Some ''<p>h</p>'')
        (Some [\<lparr>filename = ''f.txt'', content = ''x'', mimeType = ''text/plain'',
                isInline = None, contentId = None\<rparr>]) None)) = 1"
  by (rule shape2_delimiter_lines) (simp_all add: delimiter_free_plain)

text \<open>
  Claim C4 as stated fails: the same message has two opening delimiter lines of the
  alternative boundary, not one.
\<close>

theorem shape2_two_opening_delimiters:
  "count_lines (''--'' @ altBoundary 0)
     (from_base64url (createRawMessage 0 ''a@b.c'' ''s'' ''b'' None (Some ''<p>h</p>'')
        (Some [\<lparr>filename = ''f.txt'', content = ''x'', mimeType = ''text/plain'',
                isInline = None, contentId = None\<rparr>]) None)) = 2"
  unfolding createRawMessage_def base64url_roundtrip
  by (rule shape2_counts(3)) (simp_all add: delimiter_free_plain)

section \<open>Reading attachments\<close>















section \<open>The title of a rendered document\<close>

lemma doc_lines_nonempty [simp]: "doc_lines s \<noteq> []"
  by (induction s) (auto split: list.splits)

lemma hd_doc_lines: "hd (doc_lines s) = line_rest s"
  by (induction s) (auto simp: line_rest_def split: list.splits)

lemma doc_lines_Cons:
  "doc_lines (c # cs) =
     (if is_line_terminator c then [] # doc_lines cs
      else (c # hd (doc_lines cs)) # tl (doc_lines cs))"
  using doc_lines_nonempty[of cs] by (cases "doc_lines cs") auto

lemma strip_prefix_append: "strip_prefix p (p @ r) = Some r"
  by (induction p) auto

lemma strip_prefix_Some: "strip_prefix p s = Some r \<Longrightarrow> s = p @ r"
  by (induction p s rule: strip_prefix.induct) (auto split: if_splits)

lemma strip_prefix_None_append: "strip_prefix p s = None \<Longrightarrow> length p \<le> length s \<Longrightarrow> strip_prefix p (s @ t) = None"
  by (induction p s rule: strip_prefix.induct) (auto split: if_splits)

lemma heading_text_line_rest:
  "heading_text (line_rest s) =
     (case strip_prefix ''# '' s of
        None \<Rightarrow> None
      | Some r \<Rightarrow> (if line_rest r = [] then None else Some (line_rest r)))"
proof (cases "strip_prefix ''# '' s")
  case (Some r)
  then have "s = ''# '' @ r" by (rule strip_prefix_Some)
  then have "line_rest s = ''# '' @ line_rest r"
    by (simp add: line_rest_def is_line_terminator_def)
  then show ?thesis using Some by (simp add: heading_text_def)
next
  case None
  have "strip_prefix ''# '' (line_rest s) = None"
  proof (cases "strip_prefix ''# '' (line_rest s)")
    case (Some t)
    then have "line_rest s = ''# '' @ t" by (rule strip_prefix_Some)
    moreover have "s = line_rest s @ dropWhile (\<lambda>c. \<not> is_line_terminator c) s"
      by (simp add: line_rest_def)
    ultimately have "s = ''# '' @ (t @ dropWhile (\<lambda>c. \<not> is_line_terminator c) s)" by simp
    then have "strip_prefix ''# '' s = Some (t @ dropWhile (\<lambda>c. \<not> is_line_terminator c) s)"
      using strip_prefix_append[of "''# ''"] by metis
    with None show ?thesis by simp
  qed
  with None show ?thesis by (simp add: heading_text_def)
qed

lemma first_match_heading:
  "first_match (re_heading ''# '') prev s =
     map_option (\<lambda>t. (''# '' @ t, [t]))
       (first_heading (if at_line_start prev then doc_lines s else tl (doc_lines s)))"
proof (induction s arbitrary: prev)
  case Nil
  then show ?case by (simp add: heading_text_def)
next
  case (Cons c cs)
  show ?case
  proof (cases "at_line_start prev")
    case False
    then have "first_match (re_heading ''# '') prev (c # cs) = first_match (re_heading ''# '') (Some c) cs"
      by (simp add: re_heading_def)
    then show ?thesis using False Cons[of "Some c"] by (simp add: doc_lines_Cons del: doc_lines.simps(2))
  next
    case True
    obtain l ls where L: "doc_lines (c # cs) = l # ls"
      by (cases "doc_lines (c # cs)") (simp_all del: doc_lines.simps)
    have "l = line_rest (c # cs)"
      using hd_doc_lines[of "c # cs"] unfolding L by simp
    then have hl: "heading_text l =
        (case strip_prefix ''# '' (c # cs) of
           None \<Rightarrow> None
         | Some r \<Rightarrow> (if line_rest r = [] then None else Some (line_rest r)))"
      by (simp only: heading_text_line_rest)
    have "tl (doc_lines (c # cs)) = (if is_line_terminator c then doc_lines cs else tl (doc_lines cs))"
      by (simp add: doc_lines_Cons del: doc_lines.simps(2))
    then have tl_eq: "ls = (if is_line_terminator c then doc_lines cs else tl (doc_lines cs))"
      unfolding L by simp
    show ?thesis
    proof (cases "heading_text l")
      case (Some t)
      then have "re_heading ''# '' prev (c # cs) = Some (''# '' @ t, [t])"
        using True hl by (auto simp: re_heading_def split: option.splits if_splits)
      then have "first_match (re_heading ''# '') prev (c # cs) = Some (''# '' @ t, [t])"
        by simp
      moreover have "first_heading (l # ls) = Some t"
        by (simp add: Some)
      ultimately show ?thesis using True unfolding L by simp
    next
      case None
      then have "re_heading ''# '' prev (c # cs) = None"
        using True hl by (auto simp: re_heading_def split: option.splits if_splits)
      then have "first_match (re_heading ''# '') prev (c # cs) = first_match (re_heading ''# '') (Some c) cs"
        by simp
      moreover have "first_heading (l # ls) = first_heading ls"
        by (simp add: None)
      moreover have "first_match (re_heading ''# '') (Some c) cs =
          map_option (\<lambda>t. (''# '' @ t, [t])) (first_heading ls)"
        unfolding tl_eq using Cons[of "Some c"] by simp
      ultimately show ?thesis using True unfolding L by simp
    qed
  qed
qed

lemma extract_title_lines:
  "extract_title md = (case first_heading (doc_lines md) of None \<Rightarrow> ''Report'' | Some t \<Rightarrow> t)"
  by (simp add: extract_title_def first_match_heading group_def split: option.splits)


text \<open>The example of the specification.\<close>

lemma title_example:
  "r_title (markdownToEmailHtml (''# My Title'' @ [CHR 0x0A] @ ''body'') style) = ''My Title''"
  by (simp add: markdownToEmailHtml_def Let_def extract_title_lines heading_text_def is_line_terminator_def)

section \<open>Passes that leave a text alone\<close>

text \<open>An expression that can only match at a given character.\<close>

lemma replace_all_untriggered:
  assumes "\<And>prev s r. re prev s = Some r \<Longrightarrow> s \<noteq> [] \<and> hd s = d"
  shows "d \<notin> set s \<Longrightarrow> replace_all re f prev s = s"
proof (induction s arbitrary: prev)
  case Nil
  then show ?case by simp
next
  case (Cons c cs)
  have "re prev (c # cs) = None"
  proof (cases "re prev (c # cs)")
    case (Some r)
    from assms[OF Some] Cons.prems show ?thesis by simp
  qed simp
  with Cons show ?case by simp
qed

lemma replace_all_skip:
  assumes "\<And>prev s r. re prev s = Some r \<Longrightarrow> s \<noteq> [] \<and> hd s = d"
  shows "d \<notin> set x \<Longrightarrow>
    replace_all re f prev (x @ y) = x @ replace_all re f (if x = [] then prev else Some (last x)) y"
proof (induction x arbitrary: prev)
  case Nil
  then show ?case by simp
next
  case (Cons c cs)
  have "re prev (c # cs @ y) = None"
  proof (cases "re prev (c # cs @ y)")
    case (Some r)
    from assms[OF Some] Cons.prems show ?thesis by simp
  qed simp
  with Cons show ?case by simp
qed

text \<open>An expression that can only match at the start of a line, at a character in \<open>T\<close>.\<close>

lemma replace_all_heads_ok:
  assumes "\<And>prev s r. re prev s = Some r \<Longrightarrow> at_line_start prev \<and> s \<noteq> [] \<and> T (hd s)"
  shows "heads_ok T prev s \<Longrightarrow> replace_all re f prev s = s"
proof (induction s arbitrary: prev)
  case Nil
  then show ?case by simp
next
  case (Cons c cs)
  have "re prev (c # cs) = None"
  proof (cases "re prev (c # cs)")
    case (Some r)
    from assms[OF Some] Cons.prems show ?thesis by auto
  qed simp
  with Cons show ?case by simp
qed

lemma heads_ok_inside:
  "list_all (\<lambda>c. \<not> is_line_terminator c) s \<Longrightarrow> \<not> at_line_start prev \<Longrightarrow> heads_ok T prev s"
  by (induction s arbitrary: prev) auto

lemma heads_ok_line:
  "list_all (\<lambda>c. \<not> is_line_terminator c) s \<Longrightarrow>
   heads_ok T prev s = (s = [] \<or> \<not> at_line_start prev \<or> \<not> T (hd s))"
  by (cases s) (auto simp: heads_ok_inside)


subsection \<open>The expressions of the renderer\<close>

lemma re_code_fence_trigger: "re_code_fence prev s = Some r \<Longrightarrow> s \<noteq> [] \<and> hd s = CHR 0x60"
  by (cases s) (auto simp: re_code_fence_def split: option.splits if_splits)

lemma re_strong_trigger: "re_strong prev s = Some r \<Longrightarrow> s \<noteq> [] \<and> hd s = CHR ''*''"
  by (cases s) (auto simp: re_strong_def split: option.splits if_splits)

lemma re_delimited_trigger: "re_delimited d prev s = Some r \<Longrightarrow> s \<noteq> [] \<and> hd s = d"
  by (cases s) (auto simp: re_delimited_def split: option.splits if_splits)

lemma re_link_trigger: "re_link prev s = Some r \<Longrightarrow> s \<noteq> [] \<and> hd s = CHR ''[''"
  by (cases s) (auto simp: re_link_def split: option.splits if_splits)

lemma re_heading_trigger:
  "re_heading (CHR ''#'' # m) prev s = Some r \<Longrightarrow> at_line_start prev \<and> s \<noteq> [] \<and> hd s = CHR ''#''"
  by (cases s) (auto simp: re_heading_def split: option.splits if_splits)

lemma re_rule_trigger:
  "re_rule prev s = Some r \<Longrightarrow> at_line_start prev \<and> s \<noteq> [] \<and> hd s = CHR ''-''"
  by (cases s) (auto simp: re_rule_def split: option.splits if_splits)

lemma line_rest_Nil_iff: "line_rest s = [] \<longleftrightarrow> s = [] \<or> is_line_terminator (hd s)"
  by (cases s) (auto simp: line_rest_def)

lemma hd_line_rest: "line_rest s \<noteq> [] \<Longrightarrow> hd (line_rest s) = hd s"
  by (cases s) (auto simp: line_rest_def split: if_splits)

lemma lines_run_Nil: "\<not> ok (line_rest s) \<Longrightarrow> lines_run ok s = []"
  by (subst lines_run.simps) simp

lemma re_lines_trigger:
  assumes "\<And>l. ok l \<Longrightarrow> l \<noteq> [] \<and> T (hd l)"
  shows "re_lines ok prev s = Some r \<Longrightarrow> at_line_start prev \<and> s \<noteq> [] \<and> T (hd s)"
proof -
  assume a: "re_lines ok prev s = Some r"
  then have st: "at_line_start prev" and ne: "lines_run ok s \<noteq> []"
    by (auto simp: re_lines_def split: if_splits)
  have "ok (line_rest s)"
    using ne lines_run_Nil[of ok s] by blast
  from assms[OF this] have "line_rest s \<noteq> []" and "T (hd (line_rest s))" by simp_all
  then show ?thesis using st hd_line_rest[of s] by (auto simp: line_rest_Nil_iff)
qed

lemma table_line_head: "table_line l \<Longrightarrow> l \<noteq> [] \<and> hd l = CHR ''|''"
  by (cases l) auto

lemma quote_line_head: "quote_line l \<Longrightarrow> l \<noteq> [] \<and> hd l = CHR ''>''"
  by (cases l) auto

lemma bullet_line_head: "bullet_line l \<Longrightarrow> l \<noteq> [] \<and> hd l = CHR ''-''"
  by (cases l) (auto simp: bullet_line_def split: option.splits if_splits)

lemma numbered_line_head: "numbered_line l \<Longrightarrow> l \<noteq> [] \<and> is_digit (hd l)"
  by (cases l) (auto simp: numbered_line_def split: option.splits if_splits)

text \<open>The style strings hold no character that an expression of the renderer looks for.\<close>

lemma inert_styles:
  "inert (s_pre (styles_for b))" "inert (s_strong (styles_for b))"
  "inert (s_table (styles_for b))" "inert (s_th (styles_for b))" "inert (s_td (styles_for b))"
  "inert (s_blockquote (styles_for b))" "inert (s_p (styles_for b))"
  by (cases b; simp add: styles_for_def inert_def is_line_terminator_def)+

lemma inert_append [simp]: "inert (x @ y) = (inert x \<and> inert y)"
  by (simp add: inert_def)

lemma inert_Cons:
  "inert (c # x) = (\<not> is_line_terminator c \<and> c \<noteq> CHR ''*'' \<and> c \<noteq> CHR ''['' \<and> c \<noteq> CHR 0x60 \<and> inert x)"
  by (simp add: inert_def)

lemma inert_Nil [simp]: "inert []"
  by (simp add: inert_def)

lemma inert_no_terminator: "inert s \<Longrightarrow> list_all (\<lambda>c. \<not> is_line_terminator c) s"
  by (induction s) (auto simp: inert_def)

lemma inert_chars:
  "inert s \<Longrightarrow> CHR ''*'' \<notin> set s \<and> CHR ''['' \<notin> set s \<and> CHR 0x60 \<notin> set s
     \<and> CHR 0x0A \<notin> set s \<and> CHR 0x0D \<notin> set s"
  by (induction s) (auto simp: inert_def is_line_terminator_def)

lemma trim_id: "s \<noteq> [] \<Longrightarrow> \<not> is_space (hd s) \<Longrightarrow> \<not> is_space (last s) \<Longrightarrow> trim s = s"
proof -
  assume a: "s \<noteq> []" "\<not> is_space (hd s)" "\<not> is_space (last s)"
  then have 1: "dropWhile is_space s = s" by (cases s) auto
  obtain b bs where r: "rev s = b # bs" using a(1) by (cases "rev s") auto
  have "b = last s" using a(1) r by (metis hd_rev list.sel(1))
  then have "dropWhile is_space (b # bs) = b # bs" using a(3) by simp
  then have "rev (dropWhile is_space (rev s)) = s" unfolding r by (metis r rev_rev_ident)
  then show ?thesis by (simp add: trim_def 1)
qed

lemma split_on_no_sep: "sep \<notin> set s \<Longrightarrow> split_on sep s = [s]"
  by (induction s) auto

lemma split_on_nonempty [simp]: "split_on sep s \<noteq> []"
  by (induction s) (auto split: list.splits)

lemma split_on_append:
  "sep \<notin> set x \<Longrightarrow> split_on sep (x @ sep # y) = x # split_on sep y"
  by (induction x) (auto split: list.splits)

lemma split_on_join:
  "ls \<noteq> [] \<Longrightarrow> list_all (\<lambda>l. sep \<notin> set l) ls \<Longrightarrow> split_on sep (join [sep] ls) = ls"
proof (induction ls)
  case Nil
  then show ?case by simp
next
  case (Cons l ls)
  show ?case
  proof (cases "ls = []")
    case True
    with Cons.prems show ?thesis by (simp add: split_on_no_sep)
  next
    case False
    then have "join [sep] (l # ls) = l @ sep # join [sep] ls"
      by (cases ls) simp_all
    with Cons False show ?thesis by (simp add: split_on_append)
  qed
qed

lemma wrap_paragraphs_blocks:
  "list_all (\<lambda>l. trim l = [] \<or> isBlockElement (trim l)) ls \<Longrightarrow> wrap_paragraphs st False ls = ls"
  by (induction ls) auto

lemma paragraphs_pass_blocks:
  assumes "ls \<noteq> []" and "list_all (\<lambda>l. CHR 0x0A \<notin> set l) ls"
    and "list_all (\<lambda>l. trim l = [] \<or> isBlockElement (trim l)) ls"
  shows "paragraphs_pass st (join [CHR 0x0A] ls) = join [CHR 0x0A] ls"
  by (simp add: paragraphs_pass_def split_on_join[OF assms(1,2)] wrap_paragraphs_blocks[OF assms(3)])

text \<open>One line that starts with \<^verbatim>\<open><\<close>: no expression anchored at a line start matches.\<close>

lemma tag_line_passes:
  assumes nt: "list_all (\<lambda>c. \<not> is_line_terminator c) s" and h: "s = CHR ''<'' # r"
  shows "tables_pass st s = s"
    and "headings_pass st s = s"
    and "replace_all re_rule f4 None s = s"
    and "blockquotes_pass st s = s"
    and "lists_pass st s = s"
proof -
  have ho: "\<not> T (CHR ''<'') \<Longrightarrow> heads_ok T None s" for T
    using heads_ok_line[OF nt, of T None] h by simp
  show "tables_pass st s = s"
    unfolding tables_pass_def
    by (rule replace_all_heads_ok[where T = "\<lambda>c. c = CHR ''|''"])
       (use re_lines_trigger[of table_line "\<lambda>c. c = CHR ''|''"] table_line_head ho in auto)
  have hp: "heading_pass (CHR ''#'' # m) tag sty s = s" for m tag sty
    unfolding heading_pass_def
    by (rule replace_all_heads_ok[where T = "\<lambda>c. c = CHR ''#''"])
       (use re_heading_trigger ho in auto)
  show "headings_pass st s = s"
    unfolding headings_pass_def by (simp add: hp)
  show "replace_all re_rule f4 None s = s"
    by (rule replace_all_heads_ok[where T = "\<lambda>c. c = CHR ''-''"])
       (use re_rule_trigger ho in auto)
  show "blockquotes_pass st s = s"
    unfolding blockquotes_pass_def
    by (rule replace_all_heads_ok[where T = "\<lambda>c. c = CHR ''>''"])
       (use re_lines_trigger[of quote_line "\<lambda>c. c = CHR ''>''"] quote_line_head ho in auto)
  have ul: "replace_all (re_lines bullet_line) g None s = s" for g
    by (rule replace_all_heads_ok[where T = "\<lambda>c. c = CHR ''-''"])
       (use re_lines_trigger[of bullet_line "\<lambda>c. c = CHR ''-''"] bullet_line_head ho in auto)
  have ol: "replace_all (re_lines numbered_line) g None s = s" for g
    by (rule replace_all_heads_ok[where T = is_digit])
       (use re_lines_trigger[of numbered_line is_digit] numbered_line_head ho in \<open>auto simp: is_digit_def\<close>)
  show "lists_pass st s = s"
    unfolding lists_pass_def by (simp add: ul ol)
qed

text \<open>
  One line of inert text that starts with a block-level tag and ends with a character
  that is not white space: every pass after the code blocks leaves it as it is.
\<close>

lemma block_line_passes:
  assumes i: "inert s" and h: "s = CHR ''<'' # r" and l: "\<not> is_space (last s)"
    and b: "isBlockElement s"
  shows "tables_pass st s = s"
    and "headings_pass st s = s"
    and "replace_all re_strong f0 None s = s"
    and "replace_all (re_delimited (CHR ''*'')) f1 None s = s"
    and "replace_all re_link f2 None s = s"
    and "replace_all (re_delimited (CHR 0x60)) f3 None s = s"
    and "replace_all re_rule f4 None s = s"
    and "blockquotes_pass st s = s"
    and "lists_pass st s = s"
    and "paragraphs_pass st s = s"
proof -
  note nt = inert_no_terminator[OF i]
  note ch = inert_chars[OF i]
  note tg = tag_line_passes[OF nt h]
  show "tables_pass st s = s" by (rule tg)
  show "headings_pass st s = s" by (rule tg)
  show "replace_all re_rule f4 None s = s" by (rule tg)
  show "blockquotes_pass st s = s" by (rule tg)
  show "lists_pass st s = s" by (rule tg)
  show "replace_all re_strong f0 None s = s"
    by (rule replace_all_untriggered[where d = "CHR ''*''"])
       (use re_strong_trigger ch in auto)
  show "replace_all (re_delimited (CHR ''*'')) f1 None s = s"
    by (rule replace_all_untriggered[where d = "CHR ''*''"])
       (use re_delimited_trigger ch in auto)
  show "replace_all re_link f2 None s = s"
    by (rule replace_all_untriggered[where d = "CHR ''[''"])
       (use re_link_trigger ch in auto)
  show "replace_all (re_delimited (CHR 0x60)) f3 None s = s"
    by (rule replace_all_untriggered[where d = "CHR 0x60"])
       (use re_delimited_trigger ch in auto)
  have t: "trim s = s" by (rule trim_id) (use h l in \<open>auto simp: is_space_def\<close>)
  show "paragraphs_pass st s = s"
    using paragraphs_pass_blocks[of "[s]" st] ch b t by simp
qed

lemma block_line_rendered:
  assumes "inert s" and "s = CHR ''<'' # r" and "\<not> is_space (last s)" and "isBlockElement s"
  shows "paragraphs_pass st (lists_pass st (blockquotes_pass st (inline_pass st
           (headings_pass st (tables_pass st s))))) = s"
  by (simp add: inline_pass_def block_line_passes[OF assms])

section \<open>Fenced code blocks\<close>

lemma strong_skip:
  "CHR ''*'' \<notin> set x \<Longrightarrow>
   replace_all re_strong f prev (x @ y) = x @ replace_all re_strong f (if x = [] then prev else Some (last x)) y"
  by (rule replace_all_skip[where d = "CHR ''*''"]) (use re_strong_trigger in auto)

lemma fenced_bold_code_blocks:
  "code_blocks_pass st (''```'' @ [CHR 0x0A] @ ''**x**'' @ [CHR 0x0A] @ ''```'')
   = ''<pre '' @ s_pre st @ ''><code>**x**</code></pre>''"
  by (simp add: code_blocks_pass_def re_code_fence_def code_block_def escape_html_def trim_def
        group_def is_space_def is_word_char_def)

lemma fenced_bold_strong:
  assumes "inert (s_pre st)"
  shows "replace_all re_strong (\<lambda>mt gs. ''<strong '' @ s_strong st @ ''>'' @ group 0 gs @ ''</strong>'') None
      (''<pre '' @ s_pre st @ ''><code>**x**</code></pre>'')
   = ''<pre '' @ s_pre st @ ''><code><strong '' @ s_strong st @ ''>x</strong></code></pre>''"
  using inert_chars[OF assms]
  by (simp add: re_strong_def strong_skip starts_with_def is_line_terminator_def group_def)

text \<open>
  Claim C3, the input that shows the defect. The content of the fenced block is escaped
  and put between \<^verbatim>\<open><pre><code>\<close> and \<^verbatim>\<open></code></pre>\<close>, but the escaping leaves the
  asterisks as they are and the inline passes run over the whole text afterwards: the
  bold markers inside the block become a \<^verbatim>\<open><strong>\<close> element.
\<close>

theorem fenced_bold_becomes_strong:
  "r_html (markdownToEmailHtml (''```'' @ [CHR 0x0A] @ ''**x**'' @ [CHR 0x0A] @ ''```'') style)
   = ''<pre '' @ s_pre (styles_for (isLabs style)) @ ''><code><strong ''
     @ s_strong (styles_for (isLabs style)) @ ''>x</strong></code></pre>''"
proof -
  let ?st = "styles_for (isLabs style)"
  let ?s1 = "''<pre '' @ s_pre ?st @ ''><code>**x**</code></pre>''"
  let ?s2 = "''<pre '' @ s_pre ?st @ ''><code><strong '' @ s_strong ?st @ ''>x</strong></code></pre>''"
  have nt: "list_all (\<lambda>c. \<not> is_line_terminator c) ?s1"
    using inert_no_terminator[OF inert_styles(1)[of "isLabs style"]]
    by (simp add: is_line_terminator_def)
  have 1: "tables_pass ?st ?s1 = ?s1" and 2: "headings_pass ?st ?s1 = ?s1"
    using tag_line_passes(1,2)[OF nt, of _ ?st] by simp_all
  have i2: "inert ?s2"
    using inert_styles(1,2)[of "isLabs style"] by (simp add: inert_Cons is_line_terminator_def)
  have b2: "isBlockElement ?s2"
    by (simp add: isBlockElement_def starts_with_def)
  have l2: "\<not> is_space (last ?s2)"
    by (simp add: is_space_def)
  note bl = block_line_passes[OF i2 _ l2 b2]
  have 3: "inline_pass ?st ?s1 = ?s2"
    unfolding inline_pass_def fenced_bold_strong[OF inert_styles(1)]
    using bl(4,5,6,7) by simp
  have 4: "blockquotes_pass ?st ?s2 = ?s2" and 5: "lists_pass ?st ?s2 = ?s2"
    and 6: "paragraphs_pass ?st ?s2 = ?s2"
    using bl(8,9,10)[of _ ?st] by simp_all
  show ?thesis
    unfolding markdownToEmailHtml_def Let_def
    by (simp only: Rendered.simps fenced_bold_code_blocks 1 2 3 4 5 6)
qed

section \<open>Tables\<close>

lemma table_example_code_blocks:
  "code_blocks_pass st (''| A | B |'' @ [CHR 0x0A] @ ''|---|---|'' @ [CHR 0x0A] @ ''| 1 | 2 |'')
   = ''| A | B |'' @ [CHR 0x0A] @ ''|---|---|'' @ [CHR 0x0A] @ ''| 1 | 2 |''"
  unfolding code_blocks_pass_def
  by (rule replace_all_untriggered[where d = "CHR 0x60"]) (use re_code_fence_trigger in auto)

lemma table_example_separator: "\<not> isSeparator ''|---|---|''"
  by (simp add: isSeparator_def is_space_def)

lemma table_example_rows:
  "lines_run table_line (''| A | B |'' @ [CHR 0x0A] @ ''|---|---|'' @ [CHR 0x0A] @ ''| 1 | 2 |'')
   = ''| A | B |'' @ [CHR 0x0A] @ ''|---|---|'' @ [CHR 0x0A] @ ''| 1 | 2 |''"
  by (simp add: lines_run.simps line_rest_def is_line_terminator_def)

lemma table_example_block:
  "table_block st (''| A | B |'' @ [CHR 0x0A] @ ''|---|---|'' @ [CHR 0x0A] @ ''| 1 | 2 |'') gs
   = ''<table '' @ s_table st @ ''><thead><tr><th '' @ s_th st @ ''>A</th><th '' @ s_th st
     @ ''>B</th></tr></thead><tbody><tr><td '' @ s_td st @ ''>---</td><td '' @ s_td st
     @ ''>---</td></tr><tr><td '' @ s_td st @ ''>1</td><td '' @ s_td st
     @ ''>2</td></tr></tbody></table>''"
  by (simp add: table_block_def trim_def is_space_def parseRow_def isSeparator_def Let_def)

lemma table_example_tables:
  "tables_pass st (''| A | B |'' @ [CHR 0x0A] @ ''|---|---|'' @ [CHR 0x0A] @ ''| 1 | 2 |'')
   = ''<table '' @ s_table st @ ''><thead><tr><th '' @ s_th st @ ''>A</th><th '' @ s_th st
     @ ''>B</th></tr></thead><tbody><tr><td '' @ s_td st @ ''>---</td><td '' @ s_td st
     @ ''>---</td></tr><tr><td '' @ s_td st @ ''>1</td><td '' @ s_td st
     @ ''>2</td></tr></tbody></table>''"
proof -
  let ?md = "''| A | B |'' @ [CHR 0x0A] @ ''|---|---|'' @ [CHR 0x0A] @ ''| 1 | 2 |''"
  have m: "re_lines table_line None ?md = Some (?md, [])"
    unfolding re_lines_def table_example_rows by simp
  have "replace_all (re_lines table_line) (table_block st) None ?md = table_block st ?md []"
    using m by simp
  then show ?thesis
    unfolding tables_pass_def table_example_block by simp
qed

text \<open>
  Claim C6, the table of the specification. The test for a separator row admits white
  space, colons and dashes between the two outer pipes only, so the row of the example,
  which has a pipe in the middle, is not recognised and is rendered as a data row: the
  body of the table has two rows, the first with the cells \<^verbatim>\<open>---\<close> and \<^verbatim>\<open>---\<close>.
\<close>

theorem table_separator_row_is_rendered:
  "r_html (markdownToEmailHtml
      (''| A | B |'' @ [CHR 0x0A] @ ''|---|---|'' @ [CHR 0x0A] @ ''| 1 | 2 |'') style)
   = ''<table '' @ s_table (styles_for (isLabs style))
     @ ''><thead><tr><th '' @ s_th (styles_for (isLabs style))
     @ ''>A</th><th '' @ s_th (styles_for (isLabs style))
     @ ''>B</th></tr></thead><tbody><tr><td '' @ s_td (styles_for (isLabs style))
     @ ''>---</td><td '' @ s_td (styles_for (isLabs style))
     @ ''>---</td></tr><tr><td '' @ s_td (styles_for (isLabs style))
     @ ''>1</td><td '' @ s_td (styles_for (isLabs style))
     @ ''>2</td></tr></tbody></table>''"
proof -
  let ?st = "styles_for (isLabs style)"
  let ?t = "''<table '' @ s_table ?st @ ''><thead><tr><th '' @ s_th ?st @ ''>A</th><th '' @ s_th ?st
     @ ''>B</th></tr></thead><tbody><tr><td '' @ s_td ?st @ ''>---</td><td '' @ s_td ?st
     @ ''>---</td></tr><tr><td '' @ s_td ?st @ ''>1</td><td '' @ s_td ?st
     @ ''>2</td></tr></tbody></table>''"
  have i: "inert ?t"
    using inert_styles(3,4,5)[of "isLabs style"] by (simp add: inert_Cons is_line_terminator_def)
  have b: "isBlockElement ?t"
    by (simp add: isBlockElement_def starts_with_def)
  have l: "\<not> is_space (last ?t)"
    by (simp add: is_space_def)
  note bl = block_line_passes[OF i _ l b]
  have 2: "headings_pass ?st ?t = ?t"
    using bl(2)[of _ ?st] by simp
  have 3: "inline_pass ?st ?t = ?t"
    unfolding inline_pass_def using bl(3,4,5,6,7) by simp
  have 4: "blockquotes_pass ?st ?t = ?t" and 5: "lists_pass ?st ?t = ?t"
    and 6: "paragraphs_pass ?st ?t = ?t"
    using bl(8,9,10)[of _ ?st] by simp_all
  show ?thesis
    unfolding markdownToEmailHtml_def Let_def
    by (simp only: Rendered.simps table_example_code_blocks table_example_tables 2 3 4 5 6)
qed

section \<open>Runs of quoted lines\<close>


































end
